theory Spec2Isabelle
  imports Main "HOL-Library.Sublist"
begin

text \<open>
  A model of the secure file access layer of the source-code server: the class
  \<open>SecureFileManager\<close> of \<open>src/index.ts\<close> in its later version (the one with
  deletion, renaming, partial writes and search), with path validation, the admission
  counter, backups, the six gated operations and the directory walk of the search, and
  the properties proved of them.
\<close>

section \<open>Strings\<close>

text \<open>
  File names, and the content that \<open>writeFile\<close> is given, are HOL strings: the list of
  the bytes of the UTF-8 encoding, so \<open>Buffer.byteLength(s, 'utf-8')\<close> is the length of
  the list. The case mapping of file names touches the ASCII letters only; names with
  other cased letters are not covered. The strings that \<open>partialWriteFile\<close> and the
  search take apart and compare are lists of UTF-16 code units, as the strings of the
  language are (\<open>ustring\<close> below). The content of a file is a list of bytes, any list.
\<close>

definition byteLength :: "string \<Rightarrow> nat" where
  "byteLength s = length s"

definition startsWith :: "string \<Rightarrow> string \<Rightarrow> bool" where
  "startsWith s p = prefix p s"

definition endsWith :: "string \<Rightarrow> string \<Rightarrow> bool" where
  "endsWith s p = suffix p s"

definition str_includes :: "string \<Rightarrow> string \<Rightarrow> bool" where
  "str_includes s p = sublist p s"

definition lower_char :: "char \<Rightarrow> char" where
  "lower_char c =
     (case map_of (zip ''ABCDEFGHIJKLMNOPQRSTUVWXYZ'' ''abcdefghijklmnopqrstuvwxyz'') c of
        None \<Rightarrow> c
      | Some l \<Rightarrow> l)"

definition toLowerCase :: "string \<Rightarrow> string" where
  "toLowerCase s = map lower_char s"

text \<open>
  \<open>s.split(d)\<close> for a one-character separator: the result is never the empty list,
  the empty string gives one empty segment. This and the next four functions go through
  a string element by element, whatever the elements are.
\<close>

fun split_on :: "'a \<Rightarrow> 'a list \<Rightarrow> 'a list list" where
  "split_on d [] = [[]]"
| "split_on d (c # cs) =
     (if c = d then [] # split_on d cs
      else (case split_on d cs of [] \<Rightarrow> [[c]] | w # ws \<Rightarrow> (c # w) # ws))"

fun join_with :: "string \<Rightarrow> string list \<Rightarrow> string" where
  "join_with s [] = []"
| "join_with s [w] = w"
| "join_with s (w # ws) = w @ s @ join_with s ws"

text \<open>
  \<open>s.indexOf(pat, pos)\<close>: the position is clamped to the length of \<open>s\<close>, the result is
  the first index at or after it where \<open>pat\<close> starts, \<open>None\<close> for JavaScript's \<open>-1\<close>.
\<close>

fun find_from :: "'a list \<Rightarrow> 'a list \<Rightarrow> nat \<Rightarrow> nat option" where
  "find_from pat [] k = (if pat = [] then Some k else None)"
| "find_from pat (c # cs) k =
     (if prefix pat (c # cs) then Some k else find_from pat cs (Suc k))"

definition indexOf :: "'a list \<Rightarrow> 'a list \<Rightarrow> nat \<Rightarrow> nat option" where
  "indexOf s pat pos = (let start = min pos (length s) in find_from pat (drop start s) start)"

definition substring :: "'a list \<Rightarrow> nat \<Rightarrow> nat \<Rightarrow> 'a list" where
  "substring s a b = take (max a b - min a b) (drop (min a b) s)"

definition substring_from :: "'a list \<Rightarrow> nat \<Rightarrow> 'a list" where
  "substring_from s a = drop a s"

text \<open>
  A string of the language is a list of UTF-16 code units, numbers below \<open>0x10000\<close>.
  \<open>ascii\<close> writes one from its ASCII characters.
\<close>

type_synonym ustring = "nat list"

definition ascii :: "string \<Rightarrow> ustring" where
  "ascii s = map of_char s"

text \<open>
  Reading bytes as UTF-8. The decoder goes through the bytes with four variables: the
  code point under construction, the number of bytes that it still needs, and the
  bounds between which the next byte must lie. A byte that cannot begin or continue a
  character gives the replacement character \<open>U+FFFD\<close>; a byte that breaks off a
  character gives \<open>U+FFFD\<close> for the part read so far and is then read again as the
  first byte of a character; so does the end of the input. The result is the list of the
  code points of the text.
\<close>

function utf8_run :: "nat \<Rightarrow> nat \<Rightarrow> nat \<Rightarrow> nat \<Rightarrow> nat list \<Rightarrow> nat list" where
  "utf8_run cp needed lower upper [] = (if needed = 0 then [] else [0xFFFD])"
| "utf8_run cp needed lower upper (b # bs) =
     (if needed = 0 then
        (if b < 0x80 then b # utf8_run 0 0 0x80 0xBF bs
         else if 0xC2 \<le> b \<and> b \<le> 0xDF then utf8_run (b mod 0x20) 1 0x80 0xBF bs
         else if 0xE0 \<le> b \<and> b \<le> 0xEF then
           utf8_run (b mod 0x10) 2 (if b = 0xE0 then 0xA0 else 0x80)
             (if b = 0xED then 0x9F else 0xBF) bs
         else if 0xF0 \<le> b \<and> b \<le> 0xF4 then
           utf8_run (b mod 8) 3 (if b = 0xF0 then 0x90 else 0x80)
             (if b = 0xF4 then 0x8F else 0xBF) bs
         else 0xFFFD # utf8_run 0 0 0x80 0xBF bs)
      else if b < lower \<or> upper < b then 0xFFFD # utf8_run 0 0 0x80 0xBF (b # bs)
      else if needed = 1 then (cp * 0x40 + b mod 0x40) # utf8_run 0 0 0x80 0xBF bs
      else utf8_run (cp * 0x40 + b mod 0x40) (needed - 1) 0x80 0xBF bs)"
  by pat_completeness auto
termination
  by (relation "measure (\<lambda>(cp, needed, lower, upper, bs).
        2 * length bs + (if needed = 0 then 0 else 1))") auto

definition utf8_decode :: "string \<Rightarrow> nat list" where
  "utf8_decode bytes = utf8_run 0 0 0x80 0xBF (map of_char bytes)"

text \<open>
  A code point as code units: below \<open>0x10000\<close> it is one unit, from there on a pair of
  surrogates. \<open>buffer.toString('utf-8')\<close>, which is what \<open>fs.readFile(p, 'utf-8')\<close>
  returns, is the text of the bytes in code units.
\<close>

definition utf16_encode :: "nat \<Rightarrow> ustring" where
  "utf16_encode cp =
     (if cp < 0x10000 then [cp]
      else [0xD800 + (cp - 0x10000) div 0x400, 0xDC00 + (cp - 0x10000) mod 0x400])"

definition toString_utf8 :: "string \<Rightarrow> ustring" where
  "toString_utf8 bytes = concat (map utf16_encode (utf8_decode bytes))"

text \<open>
  The other way round. The code points of a string: a high surrogate and the low
  surrogate after it are one code point, a surrogate without its partner is written as
  \<open>U+FFFD\<close>, every other code unit is its own code point. A code point is encoded in
  one to four bytes. \<open>Buffer.from(s, 'utf-8')\<close> is the encoding of the code points of
  \<open>s\<close>; it is what \<open>fs.writeFile(p, s, 'utf-8')\<close> stores, and its length is
  \<open>Buffer.byteLength(s, 'utf-8')\<close>.
\<close>

definition is_high_surrogate :: "nat \<Rightarrow> bool" where
  "is_high_surrogate u = (0xD800 \<le> u \<and> u \<le> 0xDBFF)"

definition is_low_surrogate :: "nat \<Rightarrow> bool" where
  "is_low_surrogate u = (0xDC00 \<le> u \<and> u \<le> 0xDFFF)"

fun utf16_decode :: "ustring \<Rightarrow> nat list" where
  "utf16_decode [] = []"
| "utf16_decode [u] = [if is_high_surrogate u \<or> is_low_surrogate u then 0xFFFD else u]"
| "utf16_decode (u # v # us) =
     (if is_high_surrogate u \<and> is_low_surrogate v
      then (0x10000 + (u - 0xD800) * 0x400 + (v - 0xDC00)) # utf16_decode us
      else (if is_high_surrogate u \<or> is_low_surrogate u then 0xFFFD else u)
             # utf16_decode (v # us))"

definition utf8_encode :: "nat \<Rightarrow> string" where
  "utf8_encode cp =
     map char_of
       (if cp < 0x80 then [cp]
        else if cp < 0x800 then [0xC0 + cp div 0x40, 0x80 + cp mod 0x40]
        else if cp < 0x10000 then
          [0xE0 + cp div 0x1000, 0x80 + cp div 0x40 mod 0x40, 0x80 + cp mod 0x40]
        else [0xF0 + cp div 0x40000, 0x80 + cp div 0x1000 mod 0x40,
              0x80 + cp div 0x40 mod 0x40, 0x80 + cp mod 0x40])"

definition utf8_of :: "nat list \<Rightarrow> string" where
  "utf8_of cps = concat (map utf8_encode cps)"

definition Buffer_from_utf8 :: "ustring \<Rightarrow> string" where
  "Buffer_from_utf8 s = utf8_of (utf16_decode s)"

definition Buffer_byteLength :: "ustring \<Rightarrow> nat" where
  "Buffer_byteLength s = length (Buffer_from_utf8 s)"


section \<open>The POSIX path module of the runtime\<close>

text \<open>
  The program calls Node's \<open>path\<close> module; on the platforms it is deployed on that is
  \<open>path.posix\<close>, separator \<open>/\<close>. The functions are given segment by segment: Node's
  \<open>normalizeString\<close> walks the characters and keeps a result string, which is the list
  of segments kept so far joined by \<open>/\<close>.
\<close>

definition normalize_step :: "bool \<Rightarrow> string list \<Rightarrow> string \<Rightarrow> string list" where
  "normalize_step allowAboveRoot res seg =
     (if seg = [] \<or> seg = ''.'' then res
      else if seg = ''..'' then
        (if res \<noteq> [] \<and> last res \<noteq> ''..'' then butlast res
         else if allowAboveRoot then res @ [''..'']
         else res)
      else res @ [seg])"

definition normalize_segments :: "bool \<Rightarrow> string \<Rightarrow> string list" where
  "normalize_segments allowAboveRoot path =
     foldl (normalize_step allowAboveRoot) [] (split_on CHR ''/'' path)"

definition normalizeString :: "string \<Rightarrow> bool \<Rightarrow> string" where
  "normalizeString path allowAboveRoot = join_with ''/'' (normalize_segments allowAboveRoot path)"

definition posix_normalize :: "string \<Rightarrow> string" where
  "posix_normalize path =
     (if path = [] then ''.''
      else
        let isAbsolute = (hd path = CHR ''/'');
            trailingSeparator = (last path = CHR ''/'');
            p = normalizeString path (\<not> isAbsolute)
        in if p = [] then (if isAbsolute then ''/'' else if trailingSeparator then ''./'' else ''.'')
           else (if isAbsolute then ''/'' else []) @ p @ (if trailingSeparator then ''/'' else []))"

text \<open>
  \<open>path.resolve(...args)\<close>: the arguments are read from the right, then the working
  directory, until an absolute one is met. \<open>cwd\<close> is \<open>process.cwd()\<close>.
\<close>

fun resolve_args :: "string list \<Rightarrow> string \<Rightarrow> string \<times> bool" where
  "resolve_args [] resolvedPath = (resolvedPath, False)"
| "resolve_args (p # ps) resolvedPath =
     (if p = [] then resolve_args ps resolvedPath
      else if hd p = CHR ''/'' then (p @ ''/'' @ resolvedPath, True)
      else resolve_args ps (p @ ''/'' @ resolvedPath))"

definition posix_resolve :: "string \<Rightarrow> string list \<Rightarrow> string" where
  "posix_resolve cwd args =
     (case resolve_args (rev args @ [cwd]) [] of
        (resolvedPath, resolvedAbsolute) \<Rightarrow>
          let res = normalizeString resolvedPath (\<not> resolvedAbsolute)
          in if resolvedAbsolute then ''/'' @ res
             else if res \<noteq> [] then res else ''.'')"

definition posix_join :: "string list \<Rightarrow> string" where
  "posix_join args =
     (let joined = join_with ''/'' (filter (\<lambda>a. a \<noteq> []) args)
      in if joined = [] then ''.'' else posix_normalize joined)"

definition posix_basename :: "string \<Rightarrow> string" where
  "posix_basename path =
     rev (takeWhile (\<lambda>c. c \<noteq> CHR ''/'') (dropWhile (\<lambda>c. c = CHR ''/'') (rev path)))"

text \<open>
  \<open>path.extname\<close>: from the last dot of the last component, unless there is none, it is
  the component's first character, or the component is \<open>..\<close>.
\<close>

definition posix_extname :: "string \<Rightarrow> string" where
  "posix_extname path =
     (let b = posix_basename path;
          ext = CHR ''.'' # rev (takeWhile (\<lambda>c. c \<noteq> CHR ''.'') (rev b))
      in if CHR ''.'' \<notin> set b \<or> length ext = length b \<or> b = ''..'' then [] else ext)"

definition posix_dirname :: "string \<Rightarrow> string" where
  "posix_dirname path =
     (if path = [] then ''.''
      else
        let hasRoot = (hd path = CHR ''/'');
            upto = dropWhile (\<lambda>c. c \<noteq> CHR ''/'')
                     (dropWhile (\<lambda>c. c = CHR ''/'') (rev (tl path)))
        in if upto = [] then (if hasRoot then ''/'' else ''.'')
           else if hasRoot \<and> length upto = 1 then ''//''
           else take (length upto) path)"

fun drop_common :: "string list \<Rightarrow> string list \<Rightarrow> string list \<times> string list" where
  "drop_common (a # as) (b # bs) = (if a = b then drop_common as bs else (a # as, b # bs))"
| "drop_common as bs = (as, bs)"

definition path_segments :: "string \<Rightarrow> string list" where
  "path_segments p = filter (\<lambda>s. s \<noteq> []) (split_on CHR ''/'' p)"

definition posix_relative :: "string \<Rightarrow> string \<Rightarrow> string \<Rightarrow> string" where
  "posix_relative cwd from to =
     (if from = to then []
      else
        let from' = posix_resolve cwd [from]; to' = posix_resolve cwd [to]
        in if from' = to' then []
           else (case drop_common (path_segments from') (path_segments to') of
                   (up, down) \<Rightarrow> join_with ''/'' (map (\<lambda>_. ''..'') up @ down)))"


section \<open>Configuration, errors and the file manager\<close>

record SecurityConfig =
  allowedDirectory :: string
  maxFileSize :: nat
  maxConcurrentOperations :: nat
  allowedExtensions :: "string list"
  blacklistedPaths :: "string list"

record SecureFileManager =
  config :: SecurityConfig
  normalizedAllowedDir :: string
  activeOperations :: int

text \<open>
  The program throws \<open>Error\<close> objects told apart by their message. \<open>Failed op e\<close> is
  the message of \<open>e\<close> behind the prefix \<open>Failed to op file ...:\<close> that the
  \<open>catch\<close> block of an operation puts before it; \<open>IOError\<close> is an error of the file
  system itself.
\<close>

datatype errno = ENOENT | ENOTDIR | EISDIR | EEXIST | EINVAL

datatype error =
    OutsideRoot
  | Blacklisted
  | ExtensionNotAllowed
  | NotFound
  | AlreadyExists
  | SizeExceeded
  | ResourceExhausted
  | NoMatch
  | AmbiguousMatch
  | IOError errno
  | Failed string error

definition new_SecureFileManager :: "string \<Rightarrow> SecurityConfig \<Rightarrow> SecureFileManager" where
  "new_SecureFileManager cwd cfg =
     \<lparr> config = cfg,
       normalizedAllowedDir = posix_resolve cwd [posix_normalize (allowedDirectory cfg)],
       activeOperations = 0 \<rparr>"

definition isFileExtensionAllowed :: "SecureFileManager \<Rightarrow> string \<Rightarrow> bool" where
  "isFileExtensionAllowed m fileName =
     (if length (allowedExtensions (config m)) = 0 then True
      else
        let ext = toLowerCase (posix_extname fileName)
        in ext \<in> set (allowedExtensions (config m)))"

fun blacklist_loop :: "string list \<Rightarrow> string \<Rightarrow> string \<Rightarrow> bool" where
  "blacklist_loop [] relativePath fileName = False"
| "blacklist_loop (blacklisted # rest) relativePath fileName =
     (if blacklisted = ''.env.'' then
        (if startsWith fileName ''.env.'' \<and> \<not> endsWith fileName ''.template''
            \<and> \<not> endsWith fileName ''.example'' \<and> \<not> endsWith fileName ''.sample''
         then True
         else blacklist_loop rest relativePath fileName)
      else
        (if str_includes relativePath blacklisted then True
         else blacklist_loop rest relativePath fileName))"

definition isPathBlacklisted :: "SecureFileManager \<Rightarrow> string \<Rightarrow> bool" where
  "isPathBlacklisted m relativePath =
     blacklist_loop (blacklistedPaths (config m)) relativePath (posix_basename relativePath)"

definition validatePath :: "string \<Rightarrow> SecureFileManager \<Rightarrow> string \<Rightarrow> bool \<Rightarrow> error + string" where
  "validatePath cwd m filePath isFileOperation =
     (let normalizedPath = posix_normalize filePath;
          resolvedPath = posix_resolve cwd [normalizedAllowedDir m, normalizedPath]
      in if \<not> startsWith resolvedPath (normalizedAllowedDir m @ ''/'')
            \<and> resolvedPath \<noteq> normalizedAllowedDir m
         then Inl OutsideRoot
         else if filePath \<noteq> [] \<and> filePath \<noteq> ''.''
                 \<and> isPathBlacklisted m (posix_relative cwd (normalizedAllowedDir m) resolvedPath)
         then Inl Blacklisted
         else if isFileOperation \<and> \<not> isFileExtensionAllowed m (posix_basename resolvedPath)
         then Inl ExtensionNotAllowed
         else Inr resolvedPath)"

definition defaultConfig :: "string option \<Rightarrow> SecurityConfig" where
  "defaultConfig MCP_WORKSPACE_DIR =
     \<lparr> allowedDirectory =
         (case MCP_WORKSPACE_DIR of None \<Rightarrow> ''./workspace''
          | Some d \<Rightarrow> if d = [] then ''./workspace'' else d),
       maxFileSize = 10 * 1024 * 1024,
       maxConcurrentOperations = 10,
       allowedExtensions =
         [''.js'', ''.ts'', ''.jsx'', ''.tsx'', ''.py'', ''.cpp'', ''.cc'', ''.cxx'', ''.c'', ''.h'',
          ''.hpp'', ''.java'', ''.cs'', ''.php'', ''.rb'', ''.go'', ''.rs'', ''.swift'', ''.kt'',
          ''.scala'',
          ''.html'', ''.css'', ''.scss'', ''.less'', ''.json'', ''.xml'', ''.yaml'', ''.yml'',
          ''.md'', ''.txt'', ''.rst'', ''.adoc'',
          ''.sh'', ''.bat'', ''.ps1'', ''.sql'', ''.r'', ''.matlab'', ''.pl'',
          ''.template'', ''.example'', ''.sample'', ''.config'',
          []],
       blacklistedPaths =
         [''..'', ''.git/'', ''node_modules/'', ''.env.'', ''secrets/'', ''.DS_Store'',
          ''Thumbs.db''] \<rparr>"

section \<open>The file system, the clock and the runtime\<close>

text \<open>
  The world outside the program: the working directory, the clock (the text that
  \<open>new Date().toISOString()\<close> returns), the file tree, a map from absolute normalized
  paths to nodes, the size that the file system reports for each directory, and the
  upper-case mapping of the Unicode tables of the runtime for the code points from
  128 on (the result of \<open>toUppercase\<close> on one code point, which can be several code
  points). There are no permissions and no symbolic links in the tree.
\<close>

datatype node = File string | Dir

record os =
  os_cwd :: string
  os_clock :: string
  os_nodes :: "string \<Rightarrow> node option"
  os_dir_size :: "string \<Rightarrow> nat"
  os_toUppercase :: "nat \<Rightarrow> nat list"

definition is_file :: "node option \<Rightarrow> bool" where
  "is_file n = (case n of Some (File c) \<Rightarrow> True | _ \<Rightarrow> False)"

definition path_prefixes :: "string \<Rightarrow> string list" where
  "path_prefixes p = map (\<lambda>segs. ''/'' @ join_with ''/'' segs) (prefixes (path_segments p))"

text \<open>
  The error of a system call on a path at which there is nothing: \<open>ENOTDIR\<close> when a
  regular file stands somewhere above the path, \<open>ENOENT\<close> otherwise.
\<close>

definition missing :: "os \<Rightarrow> string \<Rightarrow> errno" where
  "missing w p =
     (if list_ex (\<lambda>q. is_file (os_nodes w q)) (butlast (path_prefixes p)) then ENOTDIR
      else ENOENT)"

definition fs_access :: "os \<Rightarrow> string \<Rightarrow> errno + unit" where
  "fs_access w p = (case os_nodes w p of None \<Rightarrow> Inl (missing w p) | Some n \<Rightarrow> Inr ())"

definition fs_stat_size :: "os \<Rightarrow> string \<Rightarrow> errno + nat" where
  "fs_stat_size w p =
     (case os_nodes w p of
        None \<Rightarrow> Inl (missing w p)
      | Some (File c) \<Rightarrow> Inr (byteLength c)
      | Some Dir \<Rightarrow> Inr (os_dir_size w p))"

text \<open>\<open>fs.readFile(p)\<close> with no encoding: the bytes of the file.\<close>

definition fs_readFile :: "os \<Rightarrow> string \<Rightarrow> errno + string" where
  "fs_readFile w p =
     (case os_nodes w p of
        None \<Rightarrow> Inl (missing w p)
      | Some (File c) \<Rightarrow> Inr c
      | Some Dir \<Rightarrow> Inl EISDIR)"

text \<open>\<open>fs.readFile(p, 'utf-8')\<close>: the bytes of the file read as a text.\<close>

definition fs_readFile_utf8 :: "os \<Rightarrow> string \<Rightarrow> errno + ustring" where
  "fs_readFile_utf8 w p =
     (case fs_readFile w p of Inl e \<Rightarrow> Inl e | Inr bytes \<Rightarrow> Inr (toString_utf8 bytes))"

definition put_node :: "os \<Rightarrow> string \<Rightarrow> node \<Rightarrow> os" where
  "put_node w p n = w\<lparr>os_nodes := (os_nodes w)(p \<mapsto> n)\<rparr>"

text \<open>\<open>fs.writeFile\<close> replaces the whole content; a new file needs its directory.\<close>

definition fs_writeFile :: "os \<Rightarrow> string \<Rightarrow> string \<Rightarrow> errno + os" where
  "fs_writeFile w p content =
     (case os_nodes w p of
        Some Dir \<Rightarrow> Inl EISDIR
      | Some (File c) \<Rightarrow> Inr (put_node w p (File content))
      | None \<Rightarrow>
          (case os_nodes w (posix_dirname p) of
             Some Dir \<Rightarrow> Inr (put_node w p (File content))
           | Some (File c) \<Rightarrow> Inl ENOTDIR
           | None \<Rightarrow> Inl (missing w p)))"

text \<open>\<open>fs.writeFile(p, s, 'utf-8')\<close> for a string of the language.\<close>

definition fs_writeFile_utf8 :: "os \<Rightarrow> string \<Rightarrow> ustring \<Rightarrow> errno + os" where
  "fs_writeFile_utf8 w p s = fs_writeFile w p (Buffer_from_utf8 s)"

text \<open>\<open>fs.mkdir(p, {recursive: true})\<close>: fails when \<open>p\<close> or a directory above it is a file.\<close>

definition fs_mkdir_recursive :: "os \<Rightarrow> string \<Rightarrow> errno + os" where
  "fs_mkdir_recursive w p =
     (let ps = path_prefixes p
      in case find (\<lambda>q. is_file (os_nodes w q)) ps of
           Some q \<Rightarrow> Inl (if q = last ps then EEXIST else ENOTDIR)
         | None \<Rightarrow> Inr (w\<lparr>os_nodes := foldl (\<lambda>f q. f(q \<mapsto> Dir)) (os_nodes w) ps\<rparr>))"

definition fs_copyFile :: "os \<Rightarrow> string \<Rightarrow> string \<Rightarrow> errno + os" where
  "fs_copyFile w src dst =
     (case fs_readFile w src of Inl e \<Rightarrow> Inl e | Inr c \<Rightarrow> fs_writeFile w dst c)"

definition fs_unlink :: "os \<Rightarrow> string \<Rightarrow> errno + os" where
  "fs_unlink w p =
     (case os_nodes w p of
        None \<Rightarrow> Inl (missing w p)
      | Some Dir \<Rightarrow> Inl EISDIR
      | Some (File c) \<Rightarrow> Inr (w\<lparr>os_nodes := (os_nodes w)(p := None)\<rparr>))"

text \<open>
  \<open>fs.rename\<close>: a file replaces a file at the destination; a directory moves with
  everything below it, to a destination that does not exist.
\<close>

definition fs_rename :: "os \<Rightarrow> string \<Rightarrow> string \<Rightarrow> errno + os" where
  "fs_rename w a b =
     (case os_nodes w a of
        None \<Rightarrow> Inl (missing w a)
      | Some (File c) \<Rightarrow>
          (if os_nodes w b = Some Dir then Inl EISDIR
           else if os_nodes w b = None \<and> os_nodes w (posix_dirname b) = None
           then Inl (missing w b)
           else if os_nodes w b = None \<and> is_file (os_nodes w (posix_dirname b)) then Inl ENOTDIR
           else Inr (w\<lparr>os_nodes := (os_nodes w)(a := None, b \<mapsto> File c)\<rparr>))
      | Some Dir \<Rightarrow>
          (if a = b then Inr w
           else if os_nodes w b \<noteq> None then Inl EEXIST
           else if prefix (a @ ''/'') b then Inl EINVAL
           else if os_nodes w (posix_dirname b) = None then Inl (missing w b)
           else if is_file (os_nodes w (posix_dirname b)) then Inl ENOTDIR
           else Inr (w\<lparr>os_nodes :=
                  (\<lambda>q. if q = b \<or> prefix (b @ ''/'') q then os_nodes w (a @ drop (length b) q)
                       else if q = a \<or> prefix (a @ ''/'') q then None
                       else os_nodes w q)\<rparr>)))"


section \<open>Admission and backups\<close>

text \<open>
  Every gated operation opens with the same check and increment, and ends with the same
  decrement in its \<open>finally\<close> block; the two are written once here.
\<close>

definition acquire :: "SecureFileManager \<Rightarrow> error + SecureFileManager" where
  "acquire m =
     (if activeOperations m \<ge> int (maxConcurrentOperations (config m)) then Inl ResourceExhausted
      else Inr (m\<lparr>activeOperations := activeOperations m + 1\<rparr>))"

definition release :: "SecureFileManager \<Rightarrow> SecureFileManager" where
  "release m = m\<lparr>activeOperations := activeOperations m - 1\<rparr>"

definition is_access_denied :: "error \<Rightarrow> bool" where
  "is_access_denied e = (e = OutsideRoot \<or> e = Blacklisted \<or> e = ExtensionNotAllowed)"

definition createBackup :: "SecureFileManager \<Rightarrow> os \<Rightarrow> string \<Rightarrow> (errno + unit) \<times> os" where
  "createBackup m w filePath =
     (let backupDir = posix_join [normalizedAllowedDir m, ''.backups'']
      in case fs_mkdir_recursive w backupDir of
           Inl e \<Rightarrow> (Inl e, w)
         | Inr w1 \<Rightarrow>
             let fileName = posix_basename filePath;
                 timestamp = map (\<lambda>c. if c = CHR '':'' \<or> c = CHR ''.'' then CHR ''-'' else c)
                               (os_clock w1);
                 backupFileName = fileName @ ''.'' @ timestamp @ ''.backup'';
                 backupPath = posix_join [backupDir, backupFileName]
             in case fs_copyFile w1 filePath backupPath of
                  Inl e \<Rightarrow> (Inl e, w1)
                | Inr w2 \<Rightarrow> (Inr (), w2))"


section \<open>The gated operations\<close>

text \<open>
  Each operation is its \<open>try\<close> block, the rewording of its \<open>catch\<close> block, and the
  gate around both. A \<open>try\<close> block that changes the file tree returns the tree as it
  stands when the block ends or throws. A \<open>catch\<close> block that looks for a phrase in
  the message of the error is a test on the error: of the messages of the system, only
  that of \<open>EEXIST\<close> (\<open>file already exists\<close>) holds one of the phrases looked for.
  (A message of the system also names the path; paths that hold one of the phrases
  themselves are not covered.)

  \<open>writeFile\<close> stores the bytes that it is given, and \<open>readFile\<close> returns the bytes of
  the file: they are the encoding of the text read when the file holds the encoding of
  a text, as every file does that the program wrote.
\<close>

definition readFile_try :: "SecureFileManager \<Rightarrow> os \<Rightarrow> string \<Rightarrow> error + string" where
  "readFile_try m w filePath =
     (case validatePath (os_cwd w) m filePath True of
        Inl e \<Rightarrow> Inl e
      | Inr safePath \<Rightarrow>
          (case fs_access w safePath of
             Inl accessError \<Rightarrow>
               (if accessError = ENOENT then Inl NotFound else Inl (IOError accessError))
           | Inr ok \<Rightarrow>
               (case fs_stat_size w safePath of
                  Inl e \<Rightarrow> Inl (IOError e)
                | Inr fileSize \<Rightarrow>
                    if fileSize > maxFileSize (config m) then Inl SizeExceeded
                    else (case fs_readFile w safePath of
                            Inl e \<Rightarrow> Inl (IOError e)
                          | Inr content \<Rightarrow> Inr content))))"

definition readFile_catch :: "error \<Rightarrow> error" where
  "readFile_catch e =
     (if e = NotFound \<or> is_access_denied e \<or> e = SizeExceeded then e else Failed ''read'' e)"

definition readFile ::
  "SecureFileManager \<Rightarrow> os \<Rightarrow> string \<Rightarrow> (error + string) \<times> SecureFileManager \<times> os" where
  "readFile m w filePath =
     (case acquire m of
        Inl e \<Rightarrow> (Inl e, m, w)
      | Inr m1 \<Rightarrow>
          (case readFile_try m1 w filePath of
             Inl e \<Rightarrow> (Inl (readFile_catch e), release m1, w)
           | Inr content \<Rightarrow> (Inr content, release m1, w)))"

definition writeFile_try ::
  "SecureFileManager \<Rightarrow> os \<Rightarrow> string \<Rightarrow> string \<Rightarrow> bool \<Rightarrow> (error + unit) \<times> os" where
  "writeFile_try m w filePath content backup =
     (case validatePath (os_cwd w) m filePath True of
        Inl e \<Rightarrow> (Inl e, w)
      | Inr safePath \<Rightarrow>
          if byteLength content > maxFileSize (config m) then (Inl SizeExceeded, w)
          else
            let w1 = (if backup then
                        (case fs_access w safePath of
                           Inl e \<Rightarrow> w
                         | Inr ok \<Rightarrow> snd (createBackup m w safePath))
                      else w)
            in case fs_mkdir_recursive w1 (posix_dirname safePath) of
                 Inl e \<Rightarrow> (Inl (IOError e), w1)
               | Inr w2 \<Rightarrow>
                   (case fs_writeFile w2 safePath content of
                      Inl e \<Rightarrow> (Inl (IOError e), w2)
                    | Inr w3 \<Rightarrow> (Inr (), w3)))"

definition writeFile ::
  "SecureFileManager \<Rightarrow> os \<Rightarrow> string \<Rightarrow> string \<Rightarrow> bool
     \<Rightarrow> (error + unit) \<times> SecureFileManager \<times> os" where
  "writeFile m w filePath content backup =
     (case acquire m of
        Inl e \<Rightarrow> (Inl e, m, w)
      | Inr m1 \<Rightarrow>
          (case writeFile_try m1 w filePath content backup of
             (Inl e, w') \<Rightarrow> (Inl (Failed ''write'' e), release m1, w')
           | (Inr ok, w') \<Rightarrow> (Inr (), release m1, w')))"

definition partialWriteFile_try ::
  "SecureFileManager \<Rightarrow> os \<Rightarrow> string \<Rightarrow> ustring \<Rightarrow> ustring \<Rightarrow> (error + unit) \<times> os" where
  "partialWriteFile_try m w filePath oldContent newContent =
     (case validatePath (os_cwd w) m filePath True of
        Inl e \<Rightarrow> (Inl e, w)
      | Inr safePath \<Rightarrow>
          (case fs_readFile_utf8 w safePath of
             Inl e \<Rightarrow> (Inl (IOError e), w)
           | Inr currentContent \<Rightarrow>
               (case indexOf currentContent oldContent 0 of
                  None \<Rightarrow> (Inl NoMatch, w)
                | Some oldIndex \<Rightarrow>
                    (case indexOf currentContent oldContent (oldIndex + 1) of
                       Some secondOccurrence \<Rightarrow> (Inl AmbiguousMatch, w)
                     | None \<Rightarrow>
                         let updatedContent =
                               substring currentContent 0 oldIndex @ newContent
                                 @ substring_from currentContent (oldIndex + length oldContent)
                         in if Buffer_byteLength updatedContent > maxFileSize (config m)
                            then (Inl SizeExceeded, w)
                            else (case createBackup m w safePath of
                                    (Inl e, w1) \<Rightarrow> (Inl (IOError e), w1)
                                  | (Inr ok, w1) \<Rightarrow>
                                      (case fs_writeFile_utf8 w1 safePath updatedContent of
                                         Inl e \<Rightarrow> (Inl (IOError e), w1)
                                       | Inr w2 \<Rightarrow> (Inr (), w2)))))))"

definition partialWriteFile ::
  "SecureFileManager \<Rightarrow> os \<Rightarrow> string \<Rightarrow> ustring \<Rightarrow> ustring
     \<Rightarrow> (error + unit) \<times> SecureFileManager \<times> os" where
  "partialWriteFile m w filePath oldContent newContent =
     (case acquire m of
        Inl e \<Rightarrow> (Inl e, m, w)
      | Inr m1 \<Rightarrow>
          (case partialWriteFile_try m1 w filePath oldContent newContent of
             (Inl e, w') \<Rightarrow> (Inl (Failed ''partial write'' e), release m1, w')
           | (Inr ok, w') \<Rightarrow> (Inr (), release m1, w')))"

definition deleteFile_try ::
  "SecureFileManager \<Rightarrow> os \<Rightarrow> string \<Rightarrow> bool \<Rightarrow> (error + unit) \<times> os" where
  "deleteFile_try m w filePath backup =
     (case validatePath (os_cwd w) m filePath True of
        Inl e \<Rightarrow> (Inl e, w)
      | Inr safePath \<Rightarrow>
          (case fs_access w safePath of
             Inl accessError \<Rightarrow>
               (if accessError = ENOENT then (Inl NotFound, w) else (Inl (IOError accessError), w))
           | Inr ok \<Rightarrow>
               (case (if backup then createBackup m w safePath else (Inr (), w)) of
                  (Inl e, w1) \<Rightarrow> (Inl (IOError e), w1)
                | (Inr ok, w1) \<Rightarrow>
                    (case fs_unlink w1 safePath of
                       Inl e \<Rightarrow> (Inl (IOError e), w1)
                     | Inr w2 \<Rightarrow> (Inr (), w2)))))"

definition deleteFile_catch :: "error \<Rightarrow> error" where
  "deleteFile_catch e = (if e = NotFound \<or> is_access_denied e then e else Failed ''delete'' e)"

definition deleteFile ::
  "SecureFileManager \<Rightarrow> os \<Rightarrow> string \<Rightarrow> bool \<Rightarrow> (error + unit) \<times> SecureFileManager \<times> os" where
  "deleteFile m w filePath backup =
     (case acquire m of
        Inl e \<Rightarrow> (Inl e, m, w)
      | Inr m1 \<Rightarrow>
          (case deleteFile_try m1 w filePath backup of
             (Inl e, w') \<Rightarrow> (Inl (deleteFile_catch e), release m1, w')
           | (Inr ok, w') \<Rightarrow> (Inr (), release m1, w')))"

definition renameFile_try ::
  "SecureFileManager \<Rightarrow> os \<Rightarrow> string \<Rightarrow> string \<Rightarrow> bool \<Rightarrow> (error + unit) \<times> os" where
  "renameFile_try m w oldPath newPath backup =
     (case validatePath (os_cwd w) m oldPath True of
        Inl e \<Rightarrow> (Inl e, w)
      | Inr safeOldPath \<Rightarrow>
          (case validatePath (os_cwd w) m newPath True of
             Inl e \<Rightarrow> (Inl e, w)
           | Inr safeNewPath \<Rightarrow>
               (case fs_access w safeOldPath of
                  Inl accessError \<Rightarrow>
                    (if accessError = ENOENT then (Inl NotFound, w)
                     else (Inl (IOError accessError), w))
                | Inr ok \<Rightarrow>
                    (case fs_access w safeNewPath of
                       Inr ok \<Rightarrow> (Inl AlreadyExists, w)
                     | Inl accessError \<Rightarrow>
                         if accessError \<noteq> ENOENT then (Inl (IOError accessError), w)
                         else
                           (case (if backup then createBackup m w safeOldPath else (Inr (), w)) of
                              (Inl e, w1) \<Rightarrow> (Inl (IOError e), w1)
                            | (Inr ok, w1) \<Rightarrow>
                                (case fs_mkdir_recursive w1 (posix_dirname safeNewPath) of
                                   Inl e \<Rightarrow> (Inl (IOError e), w1)
                                 | Inr w2 \<Rightarrow>
                                     (case fs_rename w2 safeOldPath safeNewPath of
                                        Inl e \<Rightarrow> (Inl (IOError e), w2)
                                      | Inr w3 \<Rightarrow> (Inr (), w3))))))))"

definition renameFile_catch :: "error \<Rightarrow> error" where
  "renameFile_catch e =
     (if e = NotFound \<or> e = AlreadyExists \<or> e = IOError EEXIST \<or> is_access_denied e then e
      else Failed ''rename/move'' e)"

definition renameFile ::
  "SecureFileManager \<Rightarrow> os \<Rightarrow> string \<Rightarrow> string \<Rightarrow> bool
     \<Rightarrow> (error + unit) \<times> SecureFileManager \<times> os" where
  "renameFile m w oldPath newPath backup =
     (case acquire m of
        Inl e \<Rightarrow> (Inl e, m, w)
      | Inr m1 \<Rightarrow>
          (case renameFile_try m1 w oldPath newPath backup of
             (Inl e, w') \<Rightarrow> (Inl (renameFile_catch e), release m1, w')
           | (Inr ok, w') \<Rightarrow> (Inr (), release m1, w')))"

text \<open>
  The stream is the list of its chunks. The monitor counts a chunk before it lets it
  through. When it stops the pipeline, the chunks let through before are still with the
  writer, which opens and writes the file later than it takes the chunks; they are
  dropped with it, and the file is left empty.
\<close>

fun monitorStream :: "nat \<Rightarrow> nat \<Rightarrow> string list \<Rightarrow> string \<Rightarrow> (error + unit) \<times> string" where
  "monitorStream maxSize bytesWritten [] written = (Inr (), written)"
| "monitorStream maxSize bytesWritten (chunk # rest) written =
     (if bytesWritten + length chunk > maxSize then (Inl SizeExceeded, [])
      else monitorStream maxSize (bytesWritten + length chunk) rest (written @ chunk))"

definition streamWriteFile_try ::
  "SecureFileManager \<Rightarrow> os \<Rightarrow> string \<Rightarrow> string list \<Rightarrow> (error + unit) \<times> os" where
  "streamWriteFile_try m w filePath contentStream =
     (case validatePath (os_cwd w) m filePath True of
        Inl e \<Rightarrow> (Inl e, w)
      | Inr safePath \<Rightarrow>
          (case fs_mkdir_recursive w (posix_dirname safePath) of
             Inl e \<Rightarrow> (Inl (IOError e), w)
           | Inr w1 \<Rightarrow>
               (case fs_writeFile w1 safePath [] of
                  Inl e \<Rightarrow> (Inl (IOError e), w1)
                | Inr w2 \<Rightarrow>
                    (case monitorStream (maxFileSize (config m)) 0 contentStream [] of
                       (r, written) \<Rightarrow> (r, put_node w2 safePath (File written))))))"

definition streamWriteFile ::
  "SecureFileManager \<Rightarrow> os \<Rightarrow> string \<Rightarrow> string list
     \<Rightarrow> (error + unit) \<times> SecureFileManager \<times> os" where
  "streamWriteFile m w filePath contentStream =
     (case acquire m of
        Inl e \<Rightarrow> (Inl e, m, w)
      | Inr m1 \<Rightarrow>
          (case streamWriteFile_try m1 w filePath contentStream of
             (Inl e, w') \<Rightarrow> (Inl (Failed ''stream write'' e), release m1, w')
           | (Inr ok, w') \<Rightarrow> (Inr (), release m1, w')))"

text \<open>
  Operations overlap only at their \<open>await\<close> points: the check and the increment run
  without interruption, and so does the decrement. A state of the gate is reachable when
  operations entering and leaving in any order lead to it; the number beside the manager
  counts the operations that have entered and not left yet.
\<close>

inductive gate_reachable :: "SecureFileManager \<Rightarrow> SecureFileManager \<times> nat \<Rightarrow> bool"
  for m0 :: SecureFileManager where
    gate_start: "gate_reachable m0 (m0, 0)"
  | gate_enter: "gate_reachable m0 (m, n) \<Longrightarrow> acquire m = Inr m' \<Longrightarrow> gate_reachable m0 (m', Suc n)"
  | gate_refuse: "gate_reachable m0 (m, n) \<Longrightarrow> acquire m = Inl e \<Longrightarrow> gate_reachable m0 (m, n)"
  | gate_leave: "gate_reachable m0 (m, Suc n) \<Longrightarrow> gate_reachable m0 (release m, n)"


section \<open>Search\<close>

text \<open>
  \<open>pattern.replace(/[.*+?^${}()|[\]\\]/g, '\\$&')\<close> puts a backslash before each
  character of the class, which lists fourteen characters.
\<close>

definition backslash :: nat where
  "backslash = 0x5C"

definition line_feed :: nat where
  "line_feed = 0x0A"

definition escaped_class :: "nat list" where
  "escaped_class = ascii ''.*+?^${}()|[]'' @ [backslash]"

definition escapeRegExp :: "ustring \<Rightarrow> ustring" where
  "escapeRegExp pattern =
     concat (map (\<lambda>c. if c \<in> set escaped_class then [backslash, c] else [c]) pattern)"

text \<open>
  The regular expressions of the runtime, as far as this program needs them. The syntax
  characters of a pattern (\<open>SyntaxCharacter\<close> in the grammar of the language) are
  \<open>^ $ \ . * + ? ( ) [ ] { } |\<close>. A source text is read left to right: a backslash
  before a syntax character stands for that character, any other character but a syntax
  character stands for itself, and everything else belongs to the pattern language.
  \<open>new_RegExp\<close> gives the expression of a source text that is made of characters
  only, and \<open>None\<close> for a source text that uses the pattern language, which is not
  described here.
\<close>

definition syntax_characters :: "nat list" where
  "syntax_characters = ascii ''^$'' @ [backslash] @ ascii ''.*+?()[]{}|''"

datatype regex_atom = Literal nat | PatternSyntax

fun regex_atoms :: "ustring \<Rightarrow> regex_atom list" where
  "regex_atoms [] = []"
| "regex_atoms [c] = [if c \<in> set syntax_characters then PatternSyntax else Literal c]"
| "regex_atoms (c # d # cs) =
     (if c = backslash then
        (if d \<in> set syntax_characters then Literal d else PatternSyntax) # regex_atoms cs
      else (if c \<in> set syntax_characters then PatternSyntax else Literal c)
             # regex_atoms (d # cs))"

fun literal_chars :: "regex_atom list \<Rightarrow> ustring option" where
  "literal_chars [] = Some []"
| "literal_chars (Literal c # as) =
     (case literal_chars as of None \<Rightarrow> None | Some cs \<Rightarrow> Some (c # cs))"
| "literal_chars (PatternSyntax # as) = None"

datatype regexp = RegExp ustring bool

definition new_RegExp :: "ustring \<Rightarrow> bool \<Rightarrow> regexp option" where
  "new_RegExp source ignoreCase =
     (case literal_chars (regex_atoms source) of
        None \<Rightarrow> None
      | Some cs \<Rightarrow> Some (RegExp cs ignoreCase))"

text \<open>
  The flag \<open>i\<close> without the flag \<open>u\<close> compares code units after \<open>Canonicalize\<close>:
  the code unit is mapped to upper case as a code point; if the result is not one code
  unit, or is an ASCII one where the code unit itself is not, the code unit stays as it
  is. The upper-case mapping of the ASCII range turns the letters \<open>a\<close> to \<open>z\<close> into
  \<open>A\<close> to \<open>Z\<close>; above it the mapping is that of the runtime.
\<close>

definition toUppercase :: "os \<Rightarrow> nat \<Rightarrow> nat list" where
  "toUppercase w cp =
     (if cp < 0x80 then [if 0x61 \<le> cp \<and> cp \<le> 0x7A then cp - 0x20 else cp]
      else os_toUppercase w cp)"

definition Canonicalize :: "os \<Rightarrow> bool \<Rightarrow> nat \<Rightarrow> nat" where
  "Canonicalize w ignoreCase ch =
     (if \<not> ignoreCase then ch
      else
        let uStr = concat (map utf16_encode (toUppercase w ch))
        in if length uStr \<noteq> 1 then ch
           else let cu = hd uStr
                in if ch \<ge> 128 \<and> cu < 128 then ch else cu)"

text \<open>
  An expression made of characters only matches a string where code units equal to
  those of the characters, after \<open>Canonicalize\<close> on both sides, stand in a row.
\<close>

fun regexp_test :: "os \<Rightarrow> regexp \<Rightarrow> ustring \<Rightarrow> bool" where
  "regexp_test w (RegExp cs ignoreCase) text =
     sublist (map (Canonicalize w ignoreCase) cs) (map (Canonicalize w ignoreCase) text)"

record SearchMatch =
  lineNumber :: nat
  lineText :: ustring
  contextLines_of :: "(ustring list \<times> ustring list) option"

definition slice :: "'a list \<Rightarrow> nat \<Rightarrow> nat \<Rightarrow> 'a list" where
  "slice xs a b = take (b - a) (drop a xs)"

definition make_match :: "ustring list \<Rightarrow> nat \<Rightarrow> nat \<Rightarrow> SearchMatch" where
  "make_match lines contextLines i =
     \<lparr> lineNumber = i + 1,
       lineText = lines ! i,
       contextLines_of =
         (if contextLines > 0 then
            let beforeStart = i - contextLines;
                afterEnd = min (length lines - 1) (i + contextLines)
            in Some (slice lines beforeStart i, slice lines (i + 1) (afterEnd + 1))
          else None) \<rparr>"

text \<open>
  \<open>searchInFile\<close> returns the empty list when the file cannot be read. The result
  is \<open>None\<close> only where \<open>new_RegExp\<close> is.
\<close>

definition searchInFile ::
  "os \<Rightarrow> string \<Rightarrow> ustring \<Rightarrow> bool \<Rightarrow> nat \<Rightarrow> SearchMatch list option" where
  "searchInFile w filePath pattern ignoreCase contextLines =
     (case fs_readFile_utf8 w filePath of
        Inl e \<Rightarrow> Some []
      | Inr content \<Rightarrow>
          let lines = split_on line_feed content
          in case new_RegExp (escapeRegExp pattern) ignoreCase of
               None \<Rightarrow> None
             | Some searchPattern \<Rightarrow>
                 Some (map (make_match lines contextLines)
                        (filter (\<lambda>i. regexp_test w searchPattern (lines ! i))
                           [0..<length lines])))"

text \<open>
  The walk reads directories and resolves symbolic links through two functions of the
  system that the file tree above does not provide: \<open>realpath\<close> and \<open>readdir\<close>, each
  \<open>None\<close> where the call fails. An entry is a file, a directory or something else.
\<close>

datatype dirent_kind = IsFile | IsDirectory | IsOther

record dirent =
  entry_name :: string
  entry_kind :: dirent_kind

record SearchResult =
  result_file :: string
  result_matches :: "SearchMatch list"

definition search_entry ::
  "SecureFileManager \<Rightarrow> os \<Rightarrow> ustring \<Rightarrow> bool \<Rightarrow> nat \<Rightarrow> bool \<Rightarrow> string
     \<Rightarrow> string list \<times> SearchResult list \<Rightarrow> dirent \<Rightarrow> (string list \<times> SearchResult list) option" where
  "search_entry m w pattern ignoreCase contextLines recursive currentDir st entry =
     (case st of (queue, found) \<Rightarrow>
        let fullPath = posix_join [currentDir, entry_name entry];
            relativePath = posix_relative (os_cwd w) (normalizedAllowedDir m) fullPath
        in if entry_kind entry = IsFile then
             (if \<not> isFileExtensionAllowed m (entry_name entry) \<or> isPathBlacklisted m relativePath
              then Some st
              else (case fs_stat_size w fullPath of
                      Inl e \<Rightarrow> Some st
                    | Inr fileSize \<Rightarrow>
                        if fileSize > maxFileSize (config m) then Some st
                        else (case searchInFile w fullPath pattern ignoreCase contextLines of
                                None \<Rightarrow> None
                              | Some matches \<Rightarrow>
                                  if length matches > 0
                                  then Some (queue,
                                         found @ [\<lparr> result_file = relativePath,
                                                      result_matches = matches \<rparr>])
                                  else Some st)))
           else if entry_kind entry = IsDirectory \<and> recursive then
             (if isPathBlacklisted m relativePath
                 \<or> (startsWith (entry_name entry) ''.''
                      \<and> entry_name entry \<notin> set [''..'', ''.''])
              then Some st
              else Some (queue @ [fullPath], found))
           else Some st)"

fun search_entries ::
  "SecureFileManager \<Rightarrow> os \<Rightarrow> ustring \<Rightarrow> bool \<Rightarrow> nat \<Rightarrow> bool \<Rightarrow> string
     \<Rightarrow> string list \<times> SearchResult list \<Rightarrow> dirent list \<Rightarrow> (string list \<times> SearchResult list) option" where
  "search_entries m w pattern ignoreCase contextLines recursive currentDir st [] = Some st"
| "search_entries m w pattern ignoreCase contextLines recursive currentDir st (entry # entries) =
     (case search_entry m w pattern ignoreCase contextLines recursive currentDir st entry of
        None \<Rightarrow> None
      | Some st' \<Rightarrow>
          search_entries m w pattern ignoreCase contextLines recursive currentDir st' entries)"

definition maxDirectories :: nat where
  "maxDirectories = 1000"

text \<open>
  The state of the loop of \<open>searchInDirectorySafe\<close>. \<open>readdirCalls\<close> is not a variable
  of the program: it records the canonical path of each directory, in order, whose
  entries the loop asks for.
\<close>

record walk =
  directoriesToProcess :: "string list"
  processedPaths :: "string set"
  processedCount :: nat
  results :: "SearchResult list"
  readdirCalls :: "string list"

function search_loop ::
  "(string \<Rightarrow> string option) \<Rightarrow> (string \<Rightarrow> dirent list option)
     \<Rightarrow> SecureFileManager \<Rightarrow> os \<Rightarrow> ustring \<Rightarrow> bool \<Rightarrow> nat \<Rightarrow> bool \<Rightarrow> walk \<Rightarrow> walk option" where
  "search_loop realpath readdir m w pattern ignoreCase contextLines recursive s =
     (if directoriesToProcess s \<noteq> [] \<and> processedCount s < maxDirectories then
        let currentDir = hd (directoriesToProcess s);
            s1 = s\<lparr> directoriesToProcess := tl (directoriesToProcess s),
                    processedCount := processedCount s + 1 \<rparr>
        in case realpath currentDir of
             None \<Rightarrow> search_loop realpath readdir m w pattern ignoreCase contextLines recursive s1
           | Some realPath \<Rightarrow>
               if realPath \<in> processedPaths s1
               then search_loop realpath readdir m w pattern ignoreCase contextLines recursive s1
               else
                 let s2 = s1\<lparr> processedPaths := insert realPath (processedPaths s1),
                              readdirCalls := readdirCalls s1 @ [realPath] \<rparr>
                 in case readdir currentDir of
                      None \<Rightarrow>
                        search_loop realpath readdir m w pattern ignoreCase contextLines recursive s2
                    | Some entries \<Rightarrow>
                        (case search_entries m w pattern ignoreCase contextLines recursive
                                currentDir (directoriesToProcess s2, results s2) entries of
                           None \<Rightarrow> None
                         | Some (queue, found) \<Rightarrow>
                             search_loop realpath readdir m w pattern ignoreCase contextLines
                               recursive (s2\<lparr> directoriesToProcess := queue, results := found \<rparr>))
      else Some s)"
  by pat_completeness auto
termination
  by (relation "measure (\<lambda>(realpath, readdir, m, w, pattern, ignoreCase, contextLines, recursive, s).
        maxDirectories - processedCount s)") auto

definition searchInDirectorySafe ::
  "(string \<Rightarrow> string option) \<Rightarrow> (string \<Rightarrow> dirent list option)
     \<Rightarrow> SecureFileManager \<Rightarrow> os \<Rightarrow> string \<Rightarrow> ustring \<Rightarrow> bool \<Rightarrow> nat \<Rightarrow> bool \<Rightarrow> walk option" where
  "searchInDirectorySafe realpath readdir m w rootPath pattern ignoreCase contextLines recursive =
     search_loop realpath readdir m w pattern ignoreCase contextLines recursive
       \<lparr> directoriesToProcess = [rootPath], processedPaths = {}, processedCount = 0,
         results = [], readdirCalls = [] \<rparr>"

definition searchInFiles ::
  "(string \<Rightarrow> string option) \<Rightarrow> (string \<Rightarrow> dirent list option)
     \<Rightarrow> SecureFileManager \<Rightarrow> os \<Rightarrow> ustring \<Rightarrow> string \<Rightarrow> bool \<Rightarrow> bool \<Rightarrow> nat
     \<Rightarrow> (error + SearchResult list) option" where
  "searchInFiles realpath readdir m w pattern searchDir recursive ignoreCase contextLines =
     (case (if searchDir = [] \<or> searchDir = ''.'' then Inr (normalizedAllowedDir m)
            else validatePath (os_cwd w) m searchDir False) of
        Inl e \<Rightarrow> Some (Inl (Failed ''search'' e))
      | Inr searchPath \<Rightarrow>
          (case searchInDirectorySafe realpath readdir m w searchPath pattern ignoreCase
                  contextLines recursive of
             None \<Rightarrow> None
           | Some s \<Rightarrow> Some (Inr (results s))))"


section \<open>Notions used in the statements and proofs\<close>

text \<open>
  A clean segment is a file or directory name that normalization keeps as it is;
  \<open>abs_of\<close> writes an absolute path from its segments.
\<close>

definition clean_seg :: "string \<Rightarrow> bool" where
  "clean_seg s = (s \<noteq> [] \<and> CHR ''/'' \<notin> set s \<and> s \<noteq> ''.'' \<and> s \<noteq> ''..'')"

definition abs_of :: "string list \<Rightarrow> string" where
  "abs_of segs = ''/'' @ join_with ''/'' segs"


text \<open>
  The number of occurrences of a fragment in a text is the number of positions at which
  the fragment starts (occurrences may overlap; the empty fragment starts at every
  position, the end included). \<open>count_from\<close> counts the same by recursion on the text.
\<close>

definition occurrences :: "'a list \<Rightarrow> 'a list \<Rightarrow> nat" where
  "occurrences pat s = length (filter (\<lambda>i. prefix pat (drop i s)) [0..<Suc (length s)])"

fun count_from :: "'a list \<Rightarrow> 'a list \<Rightarrow> nat" where
  "count_from pat [] = (if pat = [] then 1 else 0)"
| "count_from pat (c # cs) = (if prefix pat (c # cs) then 1 else 0) + count_from pat cs"

text \<open>
  The code points of a text: every number up to \<open>0x10FFFF\<close> that is not a surrogate.
\<close>

definition scalar_value :: "nat \<Rightarrow> bool" where
  "scalar_value cp = (cp < 0xD800 \<or> (0xE000 \<le> cp \<and> cp < 0x110000))"

text \<open>The path at which \<open>createBackup\<close> stores the copy of a file.\<close>

definition backup_path :: "SecureFileManager \<Rightarrow> os \<Rightarrow> string \<Rightarrow> string" where
  "backup_path m w filePath =
     posix_join [posix_join [normalizedAllowedDir m, ''.backups''],
       posix_basename filePath @ ''.''
         @ map (\<lambda>c. if c = CHR '':'' \<or> c = CHR ''.'' then CHR ''-'' else c) (os_clock w)
         @ ''.backup'']"

text \<open>
  What holds of the state of the walk throughout: no canonical path is recorded twice,
  every recorded path is marked as processed, and there are no more records than
  directories taken from the queue.
\<close>

definition walk_ok :: "walk \<Rightarrow> bool" where
  "walk_ok s = (distinct (readdirCalls s) \<and> set (readdirCalls s) \<subseteq> processedPaths s
                \<and> length (readdirCalls s) \<le> processedCount s)"

text \<open>
  The upper-case mapping of the Latin-1 letters, every other code point left as it is:
  the part of the Unicode tables that the examples use.
\<close>

definition latin1_toUppercase :: "nat \<Rightarrow> nat list" where
  "latin1_toUppercase cp =
     (if 0xE0 \<le> cp \<and> cp \<le> 0xFE \<and> cp \<noteq> 0xF7 then [cp - 0x20]
      else if cp = 0xDF then [0x53, 0x53]
      else if cp = 0xFF then [0x178]
      else if cp = 0xB5 then [0x39C]
      else [cp])"

text \<open>
  A small installation for concrete runs: root \<open>/ws\<close>, files of at most 8 bytes, one
  operation at a time; one file in the root.
\<close>

definition example_manager :: SecureFileManager where
  "example_manager =
     new_SecureFileManager ''/home/user''
       ((defaultConfig (Some ''/ws''))\<lparr>maxFileSize := 8, maxConcurrentOperations := 1\<rparr>)"

definition example_os :: os where
  "example_os =
     \<lparr> os_cwd = ''/home/user'',
       os_clock = ''2024-05-01T10:20:30.400Z'',
       os_nodes = [''/'' \<mapsto> Dir, ''/ws'' \<mapsto> Dir, ''/ws/notes.txt'' \<mapsto> File ''abcabd''],
       os_dir_size = (\<lambda>p. 4096),
       os_toUppercase = latin1_toUppercase \<rparr>"


text \<open>
  The same installation after a caller has written a file named \<open>.backups\<close> into the
  root: a regular file now stands where the backup directory would go.
\<close>

definition blocked_backup_os :: os where
  "blocked_backup_os = snd (snd (writeFile example_manager example_os ''.backups'' ''x'' False))"

text \<open>A file of three lines for the search; \<open>newline\<close> is the byte of a line feed.\<close>

definition newline :: char where
  "newline = CHR 0x0A"

definition example_search_os :: os where
  "example_search_os =
     put_node example_os ''/ws/a.txt''
       (File (''x = a.b'' @ [newline] @ ''x = aXb'' @ [newline] @ ''Y = A.B''))"

text \<open>
  A file of two lines, \<open>U+00C9\<close> (capital e with acute) and \<open>U+00E9\<close> (small e with
  acute), and a file that begins with the byte \<open>0xFF\<close>, which no encoding of a text
  contains.
\<close>

definition example_accent_os :: os where
  "example_accent_os =
     put_node example_os ''/ws/b.txt''
       (File [CHR 0xC3, CHR 0x89, newline, CHR 0xC3, CHR 0xA9])"

definition example_binary_os :: os where
  "example_binary_os = put_node example_os ''/ws/c.txt'' (File [CHR 0xFF, CHR ''a'', CHR ''b''])"

text \<open>
  A file that holds the one character \<open>U+1F600\<close>, four bytes and two code units.
\<close>

definition example_emoji_os :: os where
  "example_emoji_os =
     put_node example_os ''/ws/d.txt'' (File [CHR 0xF0, CHR 0x9F, CHR 0x98, CHR 0x80])"

text \<open>
  A directory tree with a cycle: \<open>/ws/sub/loop\<close> is listed as a directory and its
  canonical path is \<open>/ws\<close>, two levels above it.
\<close>

definition cyclic_realpath :: "string \<Rightarrow> string option" where
  "cyclic_realpath p =
     (if p = ''/ws'' then Some ''/ws''
      else if p = ''/ws/sub'' then Some ''/ws/sub''
      else if p = ''/ws/sub/loop'' then Some ''/ws''
      else None)"

definition cyclic_readdir :: "string \<Rightarrow> dirent list option" where
  "cyclic_readdir p =
     (if p = ''/ws'' \<or> p = ''/ws/sub/loop''
      then Some [\<lparr> entry_name = ''sub'', entry_kind = IsDirectory \<rparr>,
                 \<lparr> entry_name = ''notes.txt'', entry_kind = IsFile \<rparr>]
      else if p = ''/ws/sub'' then Some [\<lparr> entry_name = ''loop'', entry_kind = IsDirectory \<rparr>]
      else None)"


section \<open>Properties\<close>

subsection \<open>Paths\<close>

lemma split_on_not_Nil: "split_on d s \<noteq> []"
  by (induction s) (auto split: list.splits)

lemma clean_segD:
  "clean_seg f \<Longrightarrow> f \<noteq> [] \<and> hd f \<noteq> CHR ''/'' \<and> last f \<noteq> CHR ''/'' \<and> CHR ''/'' \<notin> set f"
  by (metis clean_seg_def hd_in_set last_in_set)

lemma split_on_no_sep: "s \<in> set (split_on d p) \<Longrightarrow> d \<notin> set s"
  by (induction p arbitrary: s) (auto split: list.splits if_splits)

lemma split_on_append: "split_on d (a @ d # b) = split_on d a @ split_on d b"
  by (induction a) (auto split: list.splits simp: split_on_not_Nil)

lemma split_on_single: "d \<notin> set s \<Longrightarrow> split_on d s = [s]"
  by (induction s) auto

lemma split_on_join:
  "segs \<noteq> [] \<Longrightarrow> list_all (\<lambda>s. d \<notin> set s) segs \<Longrightarrow> split_on d (join_with [d] segs) = segs"
proof (induction "[d]" segs rule: join_with.induct)
  case 1 then show ?case by simp
next
  case (2 w) then show ?case by (simp add: split_on_single)
next
  case (3 w v ws)
  have "split_on d (w @ d # join_with [d] (v # ws)) = split_on d w @ split_on d (join_with [d] (v # ws))"
    by (rule split_on_append)
  with 3 show ?case by (simp add: split_on_single)
qed

lemma foldl_normalize_clean:
  "list_all clean_seg segs \<Longrightarrow> foldl (normalize_step b) acc segs = acc @ segs"
  by (induction segs arbitrary: acc) (auto simp: normalize_step_def clean_seg_def)

lemma normalize_step_clean:
  "list_all clean_seg res \<Longrightarrow> CHR ''/'' \<notin> set seg \<Longrightarrow> list_all clean_seg (normalize_step False res seg)"
  by (auto simp: normalize_step_def clean_seg_def list_all_iff dest: in_set_butlastD)

lemma foldl_normalize_False_clean:
  "list_all clean_seg res \<Longrightarrow> list_all (\<lambda>s. CHR ''/'' \<notin> set s) segs
     \<Longrightarrow> list_all clean_seg (foldl (normalize_step False) res segs)"
proof (induction segs arbitrary: res)
  case Nil then show ?case by simp
next
  case (Cons a segs)
  from Cons.prems have "list_all clean_seg (normalize_step False res a)"
    by (simp add: normalize_step_clean)
  with Cons show ?case by simp
qed

lemma normalize_segments_False_clean: "list_all clean_seg (normalize_segments False p)"
  unfolding normalize_segments_def
  by (rule foldl_normalize_False_clean) (auto simp: list_all_iff split_on_no_sep)

lemma normalize_segments_snoc:
  "CHR ''/'' \<notin> set f \<Longrightarrow>
   normalize_segments b (x @ ''/'' @ f) = normalize_step b (normalize_segments b x) f"
  by (simp add: normalize_segments_def split_on_append split_on_single)

lemma normalize_segments_trailing:
  "normalize_segments b (x @ ''/'') = normalize_segments b x"
  using split_on_append[of "CHR ''/''" x "[]"]
  by (simp add: normalize_segments_def normalize_step_def)

lemma normalize_step_empty: "normalize_step b res [] = res"
  by (simp add: normalize_step_def)

lemma normalize_step_clean_seg: "clean_seg f \<Longrightarrow> normalize_step b res f = res @ [f]"
  by (auto simp: normalize_step_def clean_seg_def)

lemma normalize_segments_abs_of:
  assumes "list_all clean_seg segs"
  shows "normalize_segments b (abs_of segs) = segs"
proof (cases "segs = []")
  case True
  then show ?thesis by (simp add: abs_of_def normalize_segments_def normalize_step_def)
next
  case False
  have nosep: "list_all (\<lambda>s. CHR ''/'' \<notin> set s) segs"
    using assms by (auto simp: list_all_iff clean_seg_def)
  have "split_on CHR ''/'' (abs_of segs) = [] # segs"
    using split_on_join[OF False nosep] by (simp add: abs_of_def)
  then show ?thesis
    using foldl_normalize_clean[OF assms, of b "[]"]
    by (simp add: normalize_segments_def normalize_step_def)
qed

lemma resolve_absolute:
  assumes "prefix ''/'' x" 
  shows "posix_resolve cwd [x] = abs_of (normalize_segments False x)"
proof -
  from assms obtain y where x: "x = CHR ''/'' # y" by (auto simp: prefix_def)
  show ?thesis
    by (simp add: posix_resolve_def x normalizeString_def abs_of_def
        normalize_segments_trailing[of False x, unfolded x, simplified])
qed

lemma resolve_absolute_name:
  assumes "prefix ''/'' x" "clean_seg f"
  shows "posix_resolve cwd [x, f] = abs_of (normalize_segments False x @ [f])"
proof -
  from assms obtain y where x: "x = CHR ''/'' # y" by (auto simp: prefix_def)
  from assms have f: "f \<noteq> []" "hd f \<noteq> CHR ''/''" "CHR ''/'' \<notin> set f"
    using clean_segD[of f] by auto
  have "normalize_segments False ((x @ ''/'' @ f) @ ''/'') = normalize_segments False (x @ ''/'' @ f)"
    by (rule normalize_segments_trailing)
  also have "\<dots> = normalize_step False (normalize_segments False x) f"
    by (rule normalize_segments_snoc[OF f(3)])
  also have "\<dots> = normalize_segments False x @ [f]"
    by (rule normalize_step_clean_seg[OF assms(2)])
  finally have "normalize_segments False ((x @ ''/'' @ f) @ ''/'') = normalize_segments False x @ [f]" .
  then show ?thesis using f
    by (simp add: posix_resolve_def x normalizeString_def abs_of_def)
qed

lemma resolve_cwd_name:
  assumes "prefix ''/'' cwd" "clean_seg f"
  shows "posix_resolve cwd [f] = abs_of (normalize_segments False cwd @ [f])"
proof -
  from assms obtain y where x: "cwd = CHR ''/'' # y" by (auto simp: prefix_def)
  from assms have f: "f \<noteq> []" "hd f \<noteq> CHR ''/''" "CHR ''/'' \<notin> set f"
    using clean_segD[of f] by auto
  have "normalize_segments False ((cwd @ ''/'' @ f) @ ''/'') = normalize_segments False (cwd @ ''/'' @ f)"
    by (rule normalize_segments_trailing)
  also have "\<dots> = normalize_step False (normalize_segments False cwd) f"
    by (rule normalize_segments_snoc[OF f(3)])
  also have "\<dots> = normalize_segments False cwd @ [f]"
    by (rule normalize_step_clean_seg[OF assms(2)])
  finally have "normalize_segments False ((cwd @ ''/'' @ f) @ ''/'') = normalize_segments False cwd @ [f]" .
  then show ?thesis using f
    by (simp add: posix_resolve_def x normalizeString_def abs_of_def)
qed

lemma posix_normalize_name: "clean_seg f \<Longrightarrow> posix_normalize f = f"
proof -
  assume c: "clean_seg f"
  then have f: "f \<noteq> []" "hd f \<noteq> CHR ''/''" "last f \<noteq> CHR ''/''" "CHR ''/'' \<notin> set f"
    using clean_segD[of f] by auto
  have "normalize_segments True f = [f]"
    using c f by (simp add: normalize_segments_def split_on_single normalize_step_clean_seg)
  then show ?thesis using f by (simp add: posix_normalize_def normalizeString_def)
qed

lemma join_with_snoc: "xs \<noteq> [] \<Longrightarrow> join_with sep (xs @ [y]) = join_with sep xs @ sep @ y"
  by (induction sep xs rule: join_with.induct) auto

lemma abs_of_snoc: "segs \<noteq> [] \<Longrightarrow> abs_of (segs @ [f]) = abs_of segs @ ''/'' @ f"
  by (simp add: abs_of_def join_with_snoc)

lemma posix_basename_name:
  "f \<noteq> [] \<Longrightarrow> CHR ''/'' \<notin> set f \<Longrightarrow> posix_basename (x @ ''/'' @ f) = f"
proof -
  assume f: "f \<noteq> []" "CHR ''/'' \<notin> set f"
  then have "dropWhile (\<lambda>c. c = CHR ''/'') (rev f @ CHR ''/'' # rev x) = rev f @ CHR ''/'' # rev x"
    by (cases "rev f") (auto simp: dropWhile_eq_self_iff)
  moreover have "takeWhile (\<lambda>c. c \<noteq> CHR ''/'') (rev f @ CHR ''/'' # rev x) = rev f"
    using f by (auto simp: takeWhile_tail)
  ultimately show ?thesis by (simp add: posix_basename_def)
qed

lemma posix_basename_plain: "clean_seg f \<Longrightarrow> posix_basename f = f"
proof -
  assume c: "clean_seg f"
  from clean_segD[OF c] have f: "rev f \<noteq> []" "hd (rev f) \<noteq> CHR ''/''" "CHR ''/'' \<notin> set (rev f)"
    by (auto simp: hd_rev)
  have d: "dropWhile (\<lambda>c. c = CHR ''/'') (rev f) = rev f"
    using f(1,2) by (cases "rev f") auto
  have t: "takeWhile (\<lambda>c. c \<noteq> CHR ''/'') (rev f) = rev f"
    using f(3) by auto
  show ?thesis unfolding posix_basename_def d t by simp
qed

lemma path_segments_abs_of:
  "list_all clean_seg segs \<Longrightarrow> path_segments (abs_of segs) = segs"
proof (cases "segs = []")
  case True then show ?thesis by (simp add: path_segments_def abs_of_def)
next
  case False
  assume a: "list_all clean_seg segs"
  have nosep: "list_all (\<lambda>s. CHR ''/'' \<notin> set s) segs"
    using a by (auto simp: list_all_iff clean_seg_def)
  have "split_on CHR ''/'' (abs_of segs) = [] # segs"
    using split_on_join[OF False nosep] by (simp add: abs_of_def)
  moreover have "filter (\<lambda>s. s \<noteq> []) segs = segs"
    using a by (auto simp: list_all_iff clean_seg_def filter_id_conv)
  ultimately show ?thesis by (simp add: path_segments_def)
qed

lemma drop_common_append: "drop_common xs (xs @ ys) = ([], ys)"
proof (induction xs)
  case Nil
  show ?case by (cases ys) auto
next
  case (Cons a xs)
  then show ?case by simp
qed

lemma abs_of_prefix: "prefix ''/'' (abs_of segs)"
  by (simp add: abs_of_def)

lemma abs_of_inj_snoc: "list_all clean_seg segs \<Longrightarrow> clean_seg f \<Longrightarrow> abs_of (segs @ [f]) \<noteq> abs_of segs"
  using path_segments_abs_of[of segs] path_segments_abs_of[of "segs @ [f]"] by auto

lemma posix_relative_child:
  assumes "list_all clean_seg segs" "clean_seg f"
  shows "posix_relative cwd (abs_of segs) (abs_of (segs @ [f])) = f"
proof -
  have c2: "list_all clean_seg (segs @ [f])" using assms by simp
  have r1: "posix_resolve cwd [abs_of segs] = abs_of segs"
    by (simp add: resolve_absolute[OF abs_of_prefix] normalize_segments_abs_of[OF assms(1)])
  have r2: "posix_resolve cwd [abs_of (segs @ [f])] = abs_of (segs @ [f])"
    by (simp add: resolve_absolute[OF abs_of_prefix] normalize_segments_abs_of[OF c2])
  show ?thesis
    using abs_of_inj_snoc[OF assms]
    by (simp add: posix_relative_def r1 r2 path_segments_abs_of[OF assms(1)] path_segments_abs_of[OF c2]
        drop_common_append del: drop_common.simps)
qed

lemma validatePath_name:
  assumes root: "normalizedAllowedDir m = abs_of segs" "list_all clean_seg segs" "segs \<noteq> []"
      and f: "clean_seg f"
  shows "validatePath cwd m f isFileOperation =
     (if blacklist_loop (blacklistedPaths (config m)) f f then Inl Blacklisted
      else if isFileOperation \<and> \<not> isFileExtensionAllowed m f then Inl ExtensionNotAllowed
      else Inr (normalizedAllowedDir m @ ''/'' @ f))"
proof -
  have res: "posix_resolve cwd [abs_of segs, posix_normalize f] = abs_of segs @ ''/'' @ f"
    using resolve_absolute_name[OF abs_of_prefix f, of cwd segs]
    by (simp add: posix_normalize_name[OF f] normalize_segments_abs_of[OF root(2)] abs_of_snoc[OF root(3)])
  have rel: "posix_relative cwd (abs_of segs) (abs_of segs @ ''/'' @ f) = f"
    using posix_relative_child[OF root(2) f, of cwd] by (simp add: abs_of_snoc[OF root(3)])
  have fne: "f \<noteq> []" "f \<noteq> ''.''" "CHR ''/'' \<notin> set f" using f by (auto simp: clean_seg_def)
  have bn: "posix_basename (abs_of segs @ ''/'' @ f) = f"
    using posix_basename_name[OF fne(1) fne(3)] by simp
  have bn2: "posix_basename f = f" by (rule posix_basename_plain[OF f])
  show ?thesis
    unfolding validatePath_def Let_def root(1) res rel bn isPathBlacklisted_def bn2
    using fne by (simp add: startsWith_def)
qed

lemma normalize_step_sound:
  "list_all (\<lambda>s. s \<noteq> [] \<and> CHR ''/'' \<notin> set s) res \<Longrightarrow> CHR ''/'' \<notin> set seg
     \<Longrightarrow> list_all (\<lambda>s. s \<noteq> [] \<and> CHR ''/'' \<notin> set s) (normalize_step b res seg)"
  by (auto simp: normalize_step_def list_all_iff dest: in_set_butlastD)

lemma foldl_normalize_sound:
  "list_all (\<lambda>s. s \<noteq> [] \<and> CHR ''/'' \<notin> set s) res \<Longrightarrow> list_all (\<lambda>s. CHR ''/'' \<notin> set s) segs
     \<Longrightarrow> list_all (\<lambda>s. s \<noteq> [] \<and> CHR ''/'' \<notin> set s) (foldl (normalize_step b) res segs)"
proof (induction segs arbitrary: res)
  case Nil
  then show ?case by simp
next
  case (Cons a segs)
  from Cons.prems have "list_all (\<lambda>s. s \<noteq> [] \<and> CHR ''/'' \<notin> set s) (normalize_step b res a)"
    by (simp add: normalize_step_sound)
  with Cons show ?case by simp
qed

lemma normalize_segments_sound:
  "s \<in> set (normalize_segments b p) \<Longrightarrow> s \<noteq> [] \<and> CHR ''/'' \<notin> set s"
proof -
  have "list_all (\<lambda>s. s \<noteq> [] \<and> CHR ''/'' \<notin> set s) (normalize_segments b p)"
    unfolding normalize_segments_def
    by (rule foldl_normalize_sound) (auto simp: list_all_iff split_on_no_sep)
  then show "s \<in> set (normalize_segments b p) \<Longrightarrow> s \<noteq> [] \<and> CHR ''/'' \<notin> set s"
    by (simp add: list_all_iff)
qed

lemma join_with_last:
  "xs \<noteq> [] \<Longrightarrow> last xs \<noteq> [] \<Longrightarrow>
     join_with sep xs \<noteq> [] \<and> last (join_with sep xs) = last (last xs)"
  by (induction sep xs rule: join_with.induct) auto

lemma normalizeString_last:
  assumes ne: "normalizeString p b \<noteq> []"
  shows "last (normalizeString p b) \<noteq> CHR ''/''"
proof -
  let ?segs = "normalize_segments b p"
  from ne have segs: "?segs \<noteq> []" by (auto simp: normalizeString_def)
  then have "last ?segs \<in> set ?segs" by simp
  then have l: "last ?segs \<noteq> [] \<and> CHR ''/'' \<notin> set (last ?segs)"
    using normalize_segments_sound by blast
  then have "last (normalizeString p b) = last (last ?segs)"
    using join_with_last[OF segs] by (simp add: normalizeString_def)
  moreover have "last (last ?segs) \<in> set (last ?segs)" using l by simp
  ultimately show ?thesis using l by metis
qed

lemma posix_resolve_not_Nil: "posix_resolve cwd args \<noteq> []"
  by (auto simp: posix_resolve_def Let_def split: prod.splits)

lemma posix_resolve_trailing:
  "last (posix_resolve cwd args) = CHR ''/'' \<Longrightarrow> posix_resolve cwd args = ''/''"
  using normalizeString_last
  by (auto simp: posix_resolve_def Let_def split: prod.splits if_splits)

lemmas path_defs =
  posix_resolve_def posix_normalize_def normalizeString_def normalize_segments_def
  normalize_step_def posix_basename_def posix_extname_def posix_relative_def path_segments_def
  posix_join_def posix_dirname_def

text \<open>
  The path functions and the string functions on the examples of the runtime's
  documentation.
\<close>

lemma path_module_examples:
  "posix_normalize ''/foo/bar//baz/asdf/quux/..'' = ''/foo/bar/baz/asdf''"
  "posix_normalize ''../a/./b/'' = ''../a/b/''"
  "posix_normalize [] = ''.''"
  "posix_resolve ''/home/user'' [''/foo/bar'', ''./baz''] = ''/foo/bar/baz''"
  "posix_resolve ''/home/user'' [''/foo/bar'', ''/tmp/file/''] = ''/tmp/file''"
  "posix_resolve ''/home/user'' [''wwwroot'', ''static_files/png/'', ''../gif/image.gif'']
     = ''/home/user/wwwroot/static_files/gif/image.gif''"
  "posix_join [''/foo'', ''bar'', ''baz/asdf'', ''quux'', ''..''] = ''/foo/bar/baz/asdf''"
  "posix_relative ''/home/user'' ''/data/orandea/test/aaa'' ''/data/orandea/impl/bbb''
     = ''../../impl/bbb''"
  "posix_basename ''/foo/bar/baz/asdf/quux.html'' = ''quux.html''"
  "posix_dirname ''/foo/bar/baz/asdf/quux'' = ''/foo/bar/baz/asdf''"
  "map posix_extname [''index.html'', ''index.coffee.md'', ''index.'', ''index'', ''.index'',
       ''.index.md'']
     = [''.html'', ''.md'', ''.'', [], [], ''.md'']"
  by (simp_all add: path_defs)

lemma string_examples:
  "indexOf ''abcabd'' ''ab'' 0 = Some 0"
  "indexOf ''abcabd'' ''ab'' 1 = Some 3"
  "indexOf ''abcabd'' ''ab'' 4 = None"
  "indexOf ''abc'' [] 7 = Some 3"
  "substring ''abcabd'' 0 2 = ''ab''"
  "split_on CHR ''/'' ''a//b/'' = [''a'', [], ''b'', []]"
  by (simp_all add: indexOf_def substring_def)

lemmas validate_defs =
  validatePath_def new_SecureFileManager_def defaultConfig_def startsWith_def endsWith_def
  str_includes_def isPathBlacklisted_def isFileExtensionAllowed_def toLowerCase_def
  lower_char_def sublist_code


subsection \<open>Path validation\<close>

lemma validatePath_OutsideRoot_iff:
  "validatePath cwd m filePath isFileOperation = Inl OutsideRoot \<longleftrightarrow>
     (let resolved = posix_resolve cwd [normalizedAllowedDir m, posix_normalize filePath]
      in resolved \<noteq> normalizedAllowedDir m \<and> \<not> prefix (normalizedAllowedDir m @ ''/'') resolved)"
  by (auto simp: validatePath_def Let_def startsWith_def)

text \<open>
  C1. For a manager built by the constructor and any caller-supplied path, validation
  fails with \<open>OutsideRoot\<close> exactly when the normalized path resolved against the root
  is neither the root nor has the root followed by the separator as a strict prefix. So
  every path that resolves outside the root is refused with that error, and every path
  that resolves to the root or inside it passes the containment check (whatever the
  later checks say).
\<close>

theorem validatePath_containment:
  fixes cwd0 cwd :: string and cfg :: SecurityConfig
  defines "m \<equiv> new_SecureFileManager cwd0 cfg"
  defines "root \<equiv> normalizedAllowedDir m"
  shows "validatePath cwd m filePath isFileOperation = Inl OutsideRoot \<longleftrightarrow>
     (let resolved = posix_resolve cwd [root, posix_normalize filePath]
      in resolved \<noteq> root \<and> \<not> strict_prefix (root @ ''/'') resolved)"
proof -
  let ?r = "posix_resolve cwd [root, posix_normalize filePath]"
  have root: "root \<noteq> []"
    by (simp add: root_def m_def new_SecureFileManager_def posix_resolve_not_Nil)
  have "?r \<noteq> root @ ''/''"
  proof
    assume e: "?r = root @ ''/''"
    then have "last ?r = CHR ''/''" by simp
    then have "?r = ''/''" by (rule posix_resolve_trailing)
    with e root show False by simp
  qed
  then have "prefix (root @ ''/'') ?r \<longleftrightarrow> strict_prefix (root @ ''/'') ?r"
    by (auto simp: strict_prefix_def)
  then show ?thesis
    unfolding validatePath_OutsideRoot_iff root_def[symmetric] by (simp add: Let_def)
qed

theorem validatePath_containment_witness:
  "validatePath ''/home/user'' (new_SecureFileManager ''/home/user'' (defaultConfig None))
     ''src/../../etc/passwd'' True = Inl OutsideRoot
   \<and> validatePath ''/home/user'' (new_SecureFileManager ''/home/user'' (defaultConfig None))
     ''src/../main.ts'' True \<noteq> Inl OutsideRoot"
  using validatePath_containment[of "''/home/user''" "''/home/user''" "defaultConfig None"
          "''src/../../etc/passwd''" True]
        validatePath_containment[of "''/home/user''" "''/home/user''" "defaultConfig None"
          "''src/../main.ts''" True]
  by (simp add: new_SecureFileManager_def defaultConfig_def path_defs strict_prefix_def)

text \<open>
  C10. When the configured list of allowed extensions is empty, validation never fails
  with \<open>ExtensionNotAllowed\<close>, for any path and either kind of operation: the empty
  list admits every file.
\<close>

theorem empty_extension_list_admits_all:
  "allowedExtensions (config m) = [] \<Longrightarrow>
     validatePath cwd m filePath isFileOperation \<noteq> Inl ExtensionNotAllowed"
  by (simp add: validatePath_def Let_def isFileExtensionAllowed_def)

theorem empty_extension_list_admits_all_witness:
  "allowedExtensions (config (new_SecureFileManager ''/home/user''
       ((defaultConfig None)\<lparr>allowedExtensions := []\<rparr>))) = []
   \<and> validatePath ''/home/user''
       (new_SecureFileManager ''/home/user'' ((defaultConfig None)\<lparr>allowedExtensions := []\<rparr>))
       ''tool.exe'' True \<noteq> Inl ExtensionNotAllowed"
  using empty_extension_list_admits_all[of
      "new_SecureFileManager ''/home/user'' ((defaultConfig None)\<lparr>allowedExtensions := []\<rparr>)"
      "''/home/user''" "''tool.exe''" True]
  by (simp add: new_SecureFileManager_def)

lemma posix_normalize_workspace: "posix_normalize ''./workspace'' = ''workspace''"
  by (simp add: path_defs)

lemma default_root:
  assumes "prefix ''/'' cwd0"
  shows "normalizedAllowedDir (new_SecureFileManager cwd0 (defaultConfig None))
           = abs_of (normalize_segments False cwd0 @ [''workspace''])"
proof -
  have "clean_seg ''workspace''" by (simp add: clean_seg_def)
  from resolve_cwd_name[OF assms this] show ?thesis
    by (simp add: new_SecureFileManager_def defaultConfig_def posix_normalize_workspace)
qed

text \<open>
  C9. Under the default configuration (the workspace directory left at its default, the
  process started in any absolute working directory), the path \<open>.env\<close> passes
  validation as a file operation and resolves to the file \<open>.env\<close> directly under the
  root: no blacklist entry matches it, the \<open>.env.\<close> entry included, and its extension
  is the empty string, which the list of allowed extensions contains.
\<close>

theorem dotenv_passes_validation:
  assumes abs: "prefix ''/'' cwd0"
  defines "m \<equiv> new_SecureFileManager cwd0 (defaultConfig None)"
  shows "validatePath cwd m ''.env'' True = Inr (normalizedAllowedDir m @ ''/.env'')
         \<and> \<not> isPathBlacklisted m ''.env''
         \<and> posix_extname ''.env'' = []
         \<and> [] \<in> set (allowedExtensions (config m))"
proof -
  let ?segs = "normalize_segments False cwd0 @ [''workspace'']"
  have root: "normalizedAllowedDir m = abs_of ?segs"
    unfolding m_def by (rule default_root[OF abs])
  have clean: "list_all clean_seg ?segs"
    using normalize_segments_False_clean[of cwd0] by (simp add: clean_seg_def)
  have f: "clean_seg ''.env''" by (simp add: clean_seg_def)
  have cfg: "config m = defaultConfig None" by (simp add: m_def new_SecureFileManager_def)
  have bl: "\<not> blacklist_loop (blacklistedPaths (config m)) ''.env'' ''.env''"
    by (simp add: cfg defaultConfig_def startsWith_def str_includes_def sublist_code)
  have ext: "posix_extname ''.env'' = []" by (simp add: path_defs)
  have allowed: "isFileExtensionAllowed m ''.env''"
    by (simp add: isFileExtensionAllowed_def cfg defaultConfig_def ext toLowerCase_def)
  have "validatePath cwd m ''.env'' True = Inr (normalizedAllowedDir m @ ''/.env'')"
    using validatePath_name[OF root clean _ f, of cwd True] bl allowed by simp
  moreover have "\<not> isPathBlacklisted m ''.env''"
    using bl by (simp add: isPathBlacklisted_def posix_basename_plain[OF f])
  moreover have "[] \<in> set (allowedExtensions (config m))"
    by (simp add: cfg defaultConfig_def)
  ultimately show ?thesis using ext by simp
qed

theorem dotenv_passes_validation_witness:
  "prefix ''/'' ''/home/user''
   \<and> validatePath ''/home/user'' (new_SecureFileManager ''/home/user'' (defaultConfig None))
       ''.env'' True = Inr ''/home/user/workspace/.env''"
  using dotenv_passes_validation[of "''/home/user''" "''/home/user''"]
  by (simp add: new_SecureFileManager_def defaultConfig_def path_defs)

text \<open>
  The same holds when the workspace directory is set through the environment, for
  every value that does not make the file-system root itself the sandbox root.
\<close>

lemma resolve_args_absolute:
  "prefix ''/'' cwd \<Longrightarrow> \<exists>rp. resolve_args (xs @ [cwd]) acc = (rp, True)"
  by (induction xs arbitrary: acc) (auto simp: prefix_def)

lemma posix_resolve_abs_of:
  assumes "prefix ''/'' cwd"
  shows "\<exists>segs. list_all clean_seg segs \<and> posix_resolve cwd args = abs_of segs"
proof -
  from resolve_args_absolute[OF assms, of "rev args" "[]"]
  obtain rp where "resolve_args (rev args @ [cwd]) [] = (rp, True)" by blast
  then have "posix_resolve cwd args = abs_of (normalize_segments False rp)"
    by (simp add: posix_resolve_def normalizeString_def abs_of_def)
  with normalize_segments_False_clean[of rp] show ?thesis by blast
qed

lemma dotenv_passes_any_workspace:
  assumes abs: "prefix ''/'' cwd0"
      and m: "m = new_SecureFileManager cwd0 (defaultConfig workspace)"
      and root: "normalizedAllowedDir m \<noteq> ''/''"
  shows "validatePath cwd m ''.env'' True = Inr (normalizedAllowedDir m @ ''/.env'')"
proof -
  from posix_resolve_abs_of[OF abs] obtain segs where
    clean: "list_all clean_seg segs" and r: "normalizedAllowedDir m = abs_of segs"
    unfolding m new_SecureFileManager_def by fastforce
  from root r have ne: "segs \<noteq> []" by (auto simp: abs_of_def)
  have f: "clean_seg ''.env''" by (simp add: clean_seg_def)
  have bl: "blacklistedPaths (config m) = blacklistedPaths (defaultConfig None)"
    and al: "allowedExtensions (config m) = allowedExtensions (defaultConfig None)"
    by (simp_all add: m new_SecureFileManager_def defaultConfig_def)
  have "\<not> blacklist_loop (blacklistedPaths (config m)) ''.env'' ''.env''"
    by (simp add: bl defaultConfig_def startsWith_def str_includes_def sublist_code)
  moreover have "isFileExtensionAllowed m ''.env''"
    by (simp add: isFileExtensionAllowed_def al defaultConfig_def toLowerCase_def path_defs)
  ultimately show ?thesis
    using validatePath_name[OF r clean ne f, of cwd True] by simp
qed


subsection \<open>The admission gate\<close>

lemma release_acquire: "acquire m = Inr m1 \<Longrightarrow> release m1 = m"
  by (auto simp: acquire_def release_def split: if_splits)

lemma acquire_config: "acquire m = Inr m1 \<Longrightarrow> config m1 = config m \<and> normalizedAllowedDir m1 = normalizedAllowedDir m"
  by (auto simp: acquire_def split: if_splits)

lemma acquire_refused:
  "acquire m = Inl e \<longleftrightarrow> e = ResourceExhausted \<and> activeOperations m \<ge> int (maxConcurrentOperations (config m))"
  by (auto simp: acquire_def)

lemma readFile_manager: "fst (snd (readFile m w p)) = m"
  by (auto simp: readFile_def release_acquire split: sum.splits)

lemma writeFile_manager: "fst (snd (writeFile m w p c b)) = m"
  by (auto simp: writeFile_def release_acquire split: sum.splits prod.splits)

lemma partialWriteFile_manager: "fst (snd (partialWriteFile m w p old new)) = m"
  by (auto simp: partialWriteFile_def release_acquire split: sum.splits prod.splits)

lemma deleteFile_manager: "fst (snd (deleteFile m w p b)) = m"
  by (auto simp: deleteFile_def release_acquire split: sum.splits prod.splits)

lemma renameFile_manager: "fst (snd (renameFile m w p q b)) = m"
  by (auto simp: renameFile_def release_acquire split: sum.splits prod.splits)

lemma streamWriteFile_manager: "fst (snd (streamWriteFile m w p cs)) = m"
  by (auto simp: streamWriteFile_def release_acquire split: sum.splits prod.splits)

lemma gate_invariant:
  "gate_reachable m0 s \<Longrightarrow> activeOperations m0 = 0 \<Longrightarrow>
     activeOperations (fst s) = int (snd s)
     \<and> activeOperations (fst s) \<le> int (maxConcurrentOperations (config (fst s)))
     \<and> config (fst s) = config m0"
proof (induction rule: gate_reachable.induct)
  case gate_start
  then show ?case by simp
next
  case (gate_enter m n m')
  then show ?case by (auto simp: acquire_def split: if_splits)
next
  case (gate_refuse m n e)
  then show ?case by auto
next
  case (gate_leave m n)
  then show ?case by (auto simp: release_def)
qed

text \<open>
  C4. In every state that operations entering and leaving the gate can reach from a
  freshly constructed manager, the counter is at least 0 and at most
  \<open>maxConcurrentOperations\<close>, and equals the number of operations that have entered
  and not left. At the maximum each of the six gated operations is refused with
  \<open>ResourceExhausted\<close> and changes neither the counter nor the file tree; and each of
  them, run to its end, leaves the manager as it found it, whatever the outcome: the
  increment after the check and the decrement in \<open>finally\<close> cancel.
\<close>

theorem admission_counter_bounds:
  assumes "gate_reachable (new_SecureFileManager cwd cfg) (m, n)"
  shows "0 \<le> activeOperations m
       \<and> activeOperations m \<le> int (maxConcurrentOperations (config m))
       \<and> activeOperations m = int n
       \<and> (activeOperations m \<ge> int (maxConcurrentOperations (config m)) \<longrightarrow>
            readFile m w p = (Inl ResourceExhausted, m, w)
          \<and> writeFile m w p c b = (Inl ResourceExhausted, m, w)
          \<and> streamWriteFile m w p cs = (Inl ResourceExhausted, m, w)
          \<and> deleteFile m w p b = (Inl ResourceExhausted, m, w)
          \<and> renameFile m w p q b = (Inl ResourceExhausted, m, w)
          \<and> partialWriteFile m w p old new = (Inl ResourceExhausted, m, w))
       \<and> fst (snd (readFile m w p)) = m
       \<and> fst (snd (writeFile m w p c b)) = m
       \<and> fst (snd (streamWriteFile m w p cs)) = m
       \<and> fst (snd (deleteFile m w p b)) = m
       \<and> fst (snd (renameFile m w p q b)) = m
       \<and> fst (snd (partialWriteFile m w p old new)) = m"
proof -
  have "activeOperations (new_SecureFileManager cwd cfg) = 0"
    by (simp add: new_SecureFileManager_def)
  from gate_invariant[OF assms this]
  have inv: "activeOperations m = int n"
    "activeOperations m \<le> int (maxConcurrentOperations (config m))" by auto
  have full: "activeOperations m \<ge> int (maxConcurrentOperations (config m)) \<longrightarrow>
            readFile m w p = (Inl ResourceExhausted, m, w)
          \<and> writeFile m w p c b = (Inl ResourceExhausted, m, w)
          \<and> streamWriteFile m w p cs = (Inl ResourceExhausted, m, w)
          \<and> deleteFile m w p b = (Inl ResourceExhausted, m, w)
          \<and> renameFile m w p q b = (Inl ResourceExhausted, m, w)
          \<and> partialWriteFile m w p old new = (Inl ResourceExhausted, m, w)"
    by (simp add: acquire_def readFile_def writeFile_def streamWriteFile_def deleteFile_def
        renameFile_def partialWriteFile_def)
  from inv have "0 \<le> activeOperations m" by simp
  with inv full show ?thesis
    by (simp only: readFile_manager writeFile_manager streamWriteFile_manager deleteFile_manager
        renameFile_manager partialWriteFile_manager simp_thms)
qed

lemmas example_defs = example_manager_def example_os_def

theorem admission_counter_bounds_witness:
  "gate_reachable example_manager (example_manager\<lparr>activeOperations := 1\<rparr>, 1)
   \<and> activeOperations (example_manager\<lparr>activeOperations := 1\<rparr>)
        \<ge> int (maxConcurrentOperations (config (example_manager\<lparr>activeOperations := 1\<rparr>)))
   \<and> readFile (example_manager\<lparr>activeOperations := 1\<rparr>) example_os ''notes.txt''
        = (Inl ResourceExhausted, example_manager\<lparr>activeOperations := 1\<rparr>, example_os)"
proof -
  have "acquire example_manager = Inr (example_manager\<lparr>activeOperations := 1\<rparr>)"
    by (simp add: acquire_def example_defs new_SecureFileManager_def defaultConfig_def)
  from gate_enter[OF gate_start this]
  have r: "gate_reachable (new_SecureFileManager ''/home/user''
              ((defaultConfig (Some ''/ws''))\<lparr>maxFileSize := 8, maxConcurrentOperations := 1\<rparr>))
            (example_manager\<lparr>activeOperations := 1\<rparr>, 1)"
    by (simp add: example_manager_def)
  have full: "activeOperations (example_manager\<lparr>activeOperations := 1\<rparr>)
        \<ge> int (maxConcurrentOperations (config (example_manager\<lparr>activeOperations := 1\<rparr>)))"
    by (simp add: example_defs new_SecureFileManager_def defaultConfig_def)
  from admission_counter_bounds[OF r, of example_os "''notes.txt''"] full r
  show ?thesis by (simp add: example_manager_def)
qed


subsection \<open>Writing and reading\<close>

lemma validatePath_counter [simp]:
  "validatePath cwd (m\<lparr>activeOperations := a\<rparr>) p f = validatePath cwd m p f"
  by (simp add: validatePath_def isPathBlacklisted_def isFileExtensionAllowed_def Let_def)

lemma acquire_validatePath:
  "acquire m = Inr m1 \<Longrightarrow> validatePath cwd m1 p f = validatePath cwd m p f"
  by (auto simp: acquire_def split: if_splits)

lemma acquire_Inr_iff:
  "(\<exists>m1. acquire m = Inr m1) \<longleftrightarrow> activeOperations m < int (maxConcurrentOperations (config m))"
  by (auto simp: acquire_def)

lemma fs_writeFile_result:
  "fs_writeFile w p c = Inr w' \<Longrightarrow> w' = put_node w p (File c)"
  by (auto simp: fs_writeFile_def split: option.splits node.splits)

lemma put_node_simps [simp]:
  "os_cwd (put_node w p n) = os_cwd w"
  "os_clock (put_node w p n) = os_clock w"
  "os_nodes (put_node w p n) = (os_nodes w)(p \<mapsto> n)"
  "os_dir_size (put_node w p n) = os_dir_size w"
  "os_toUppercase (put_node w p n) = os_toUppercase w"
  by (simp_all add: put_node_def)

lemma fs_mkdir_recursive_cwd:
  "fs_mkdir_recursive w p = Inr w' \<Longrightarrow> os_cwd w' = os_cwd w \<and> os_clock w' = os_clock w"
  by (auto simp: fs_mkdir_recursive_def Let_def split: option.splits)

lemma createBackup_cwd: "os_cwd (snd (createBackup m w p)) = os_cwd w"
  by (auto simp: createBackup_def Let_def fs_copyFile_def split: sum.splits
      dest!: fs_mkdir_recursive_cwd fs_writeFile_result)

text \<open>
  C5 (as amended). For every valid path and every content whose byte length is above
  the configured maximum, a write that the gate admits (the counter is below the
  maximum) fails with \<open>SizeExceeded\<close>, worded by the \<open>catch\<close> block of the write, and
  leaves the file tree and the manager exactly as they were: no file, backup or
  directory is created or changed.
\<close>

theorem oversized_write_rejected:
  assumes valid: "validatePath (os_cwd w) m filePath True = Inr safePath"
      and big: "byteLength content > maxFileSize (config m)"
      and admitted: "activeOperations m < int (maxConcurrentOperations (config m))"
  shows "writeFile m w filePath content backup = (Inl (Failed ''write'' SizeExceeded), m, w)"
proof -
  from admitted obtain m1 where a: "acquire m = Inr m1" using acquire_Inr_iff by blast
  have "writeFile_try m1 w filePath content backup = (Inl SizeExceeded, w)"
    using valid big acquire_validatePath[OF a] acquire_config[OF a]
    by (simp add: writeFile_try_def)
  then show ?thesis using a by (simp add: writeFile_def release_acquire)
qed

theorem oversized_write_rejected_witness:
  "validatePath (os_cwd example_os) example_manager ''notes.txt'' True = Inr ''/ws/notes.txt''
   \<and> byteLength ''123456789'' > maxFileSize (config example_manager)
   \<and> activeOperations example_manager < int (maxConcurrentOperations (config example_manager))
   \<and> writeFile example_manager example_os ''notes.txt'' ''123456789'' True
        = (Inl (Failed ''write'' SizeExceeded), example_manager, example_os)"
proof -
  have v: "validatePath (os_cwd example_os) example_manager ''notes.txt'' True
             = Inr ''/ws/notes.txt''"
    by (simp add: example_defs validate_defs path_defs)
  have b: "byteLength ''123456789'' > maxFileSize (config example_manager)"
    by (simp add: example_defs new_SecureFileManager_def defaultConfig_def byteLength_def)
  have a: "activeOperations example_manager
             < int (maxConcurrentOperations (config example_manager))"
    by (simp add: example_defs new_SecureFileManager_def defaultConfig_def)
  from oversized_write_rejected[OF v b a] v b a show ?thesis by simp
qed

text \<open>
  The claim as first stated does not name the gate: at the maximum of running
  operations the same oversized write to the same valid path is refused with
  \<open>ResourceExhausted\<close>, not \<open>SizeExceeded\<close>. The state is one the gate reaches.
\<close>

theorem oversized_write_at_capacity_counterexample:
  "gate_reachable example_manager (example_manager\<lparr>activeOperations := 1\<rparr>, 1)
   \<and> validatePath (os_cwd example_os) (example_manager\<lparr>activeOperations := 1\<rparr>)
        ''notes.txt'' True = Inr ''/ws/notes.txt''
   \<and> byteLength ''123456789''
        > maxFileSize (config (example_manager\<lparr>activeOperations := 1\<rparr>))
   \<and> writeFile (example_manager\<lparr>activeOperations := 1\<rparr>) example_os ''notes.txt''
        ''123456789'' False
        = (Inl ResourceExhausted, example_manager\<lparr>activeOperations := 1\<rparr>, example_os)
   \<and> fst (writeFile (example_manager\<lparr>activeOperations := 1\<rparr>) example_os ''notes.txt''
        ''123456789'' False) \<noteq> Inl (Failed ''write'' SizeExceeded)"
proof -
  have "acquire example_manager = Inr (example_manager\<lparr>activeOperations := 1\<rparr>)"
    by (simp add: acquire_def example_defs new_SecureFileManager_def defaultConfig_def)
  from gate_enter[OF gate_start this]
  have r: "gate_reachable example_manager (example_manager\<lparr>activeOperations := 1\<rparr>, 1)"
    by simp
  have v: "validatePath (os_cwd example_os) example_manager ''notes.txt'' True
             = Inr ''/ws/notes.txt''"
    by (simp add: example_defs validate_defs path_defs)
  have b: "byteLength ''123456789''
        > maxFileSize (config (example_manager\<lparr>activeOperations := 1\<rparr>))"
    by (simp add: example_defs new_SecureFileManager_def defaultConfig_def byteLength_def)
  have w: "writeFile (example_manager\<lparr>activeOperations := 1\<rparr>) example_os ''notes.txt''
        ''123456789'' False
        = (Inl ResourceExhausted, example_manager\<lparr>activeOperations := 1\<rparr>, example_os)"
    by (simp add: writeFile_def acquire_def example_defs new_SecureFileManager_def
        defaultConfig_def)
  show ?thesis using r v b w by simp
qed

lemma writeFile_success:
  assumes "writeFile m w filePath content backup = (Inr (), m', w')"
  shows "m' = m \<and> os_cwd w' = os_cwd w
       \<and> activeOperations m < int (maxConcurrentOperations (config m))
       \<and> byteLength content \<le> maxFileSize (config m)
       \<and> (\<exists>safePath. validatePath (os_cwd w) m filePath True = Inr safePath
             \<and> os_nodes w' safePath = Some (File content))"
proof -
  from assms obtain m1 where a: "acquire m = Inr m1"
    by (auto simp: writeFile_def split: sum.splits)
  from assms a have t: "writeFile_try m1 w filePath content backup = (Inr (), w')" and m': "m' = m"
    by (auto simp: writeFile_def release_acquire split: sum.splits prod.splits)
  from t obtain safePath where v: "validatePath (os_cwd w) m1 filePath True = Inr safePath"
    by (auto simp: writeFile_try_def split: sum.splits)
  from t v have sz: "byteLength content \<le> maxFileSize (config m1)"
    by (auto simp: writeFile_try_def split: if_splits)
  define w1 where "w1 = (if backup then
                        (case fs_access w safePath of
                           Inl e \<Rightarrow> w
                         | Inr ok \<Rightarrow> snd (createBackup m1 w safePath))
                      else w)"
  have c1: "os_cwd w1 = os_cwd w"
    by (auto simp: w1_def createBackup_cwd split: sum.splits)
  from t v sz obtain w2 where mk: "fs_mkdir_recursive w1 (posix_dirname safePath) = Inr w2"
    and wr: "fs_writeFile w2 safePath content = Inr w'"
    by (auto simp: writeFile_try_def w1_def[symmetric] Let_def split: sum.splits)
  from fs_writeFile_result[OF wr] have "os_nodes w' safePath = Some (File content)" "os_cwd w' = os_cwd w2"
    by simp_all
  with fs_mkdir_recursive_cwd[OF mk] c1 v sz m' a acquire_validatePath[OF a] acquire_config[OF a] acquire_Inr_iff[of m]
  show ?thesis by auto
qed

text \<open>
  C8. A write that succeeds, followed by a read of the same path by the manager and on
  the file tree that the write returned, returns exactly the content written. That the
  path is valid, the content within the size limit and the gate open for the read
  follows from the success of the write.
\<close>

theorem write_then_read:
  assumes "writeFile m w filePath content backup = (Inr (), m', w')"
  shows "readFile m' w' filePath = (Inr content, m', w')"
proof -
  from writeFile_success[OF assms] obtain safePath where
    m': "m' = m" and cwd: "os_cwd w' = os_cwd w"
    and adm: "activeOperations m < int (maxConcurrentOperations (config m))"
    and sz: "byteLength content \<le> maxFileSize (config m)"
    and v: "validatePath (os_cwd w) m filePath True = Inr safePath"
    and n: "os_nodes w' safePath = Some (File content)" by blast
  from adm obtain m1 where a: "acquire m = Inr m1" using acquire_Inr_iff by blast
  have "readFile_try m1 w' filePath = Inr content"
    using v n sz cwd acquire_validatePath[OF a] acquire_config[OF a]
    by (simp add: readFile_try_def fs_access_def fs_stat_size_def fs_readFile_def)
  then show ?thesis using a m' by (simp add: readFile_def release_acquire)
qed

lemmas fs_defs =
  fs_access_def fs_stat_size_def fs_readFile_def fs_readFile_utf8_def fs_writeFile_def
  fs_mkdir_recursive_def fs_copyFile_def fs_unlink_def path_prefixes_def is_file_def put_node_def
  missing_def

text \<open>
  System calls on the example tree: a path below a regular file gives \<open>ENOTDIR\<close>, which
  \<open>readFile\<close> words as a failed read; a directory has the size that the file system
  reports, so under the limit of 8 bytes reading the root as a file fails on its size;
  a stream that goes over the limit leaves an empty file.
\<close>

lemma file_system_examples:
  "fs_access example_os ''/ws/notes.txt'' = Inr ()"
  "fs_access example_os ''/ws/nothing.txt'' = Inl ENOENT"
  "fs_access example_os ''/ws/notes.txt/x'' = Inl ENOTDIR"
  "fst (readFile example_manager example_os ''nothing.txt'') = Inl NotFound"
  "fst (readFile example_manager example_os ''notes.txt/x'') = Inl (Failed ''read'' (IOError ENOTDIR))"
  "fst (readFile example_manager example_os ''.'') = Inl SizeExceeded"
  "fst (streamWriteFile example_manager example_os ''s.txt'' [''12345'', ''6789''])
     = Inl (Failed ''stream write'' SizeExceeded)"
  "os_nodes (snd (snd (streamWriteFile example_manager example_os ''s.txt'' [''12345'', ''6789''])))
     ''/ws/s.txt'' = Some (File [])"
  by (simp_all add: readFile_def readFile_try_def readFile_catch_def is_access_denied_def
      streamWriteFile_def streamWriteFile_try_def acquire_def release_def example_defs
      validate_defs path_defs fs_defs byteLength_def)

theorem write_then_read_witness:
  "fst (writeFile example_manager example_os ''src/main.ts'' ''let x'' False) = Inr ()
   \<and> fst (readFile (fst (snd (writeFile example_manager example_os ''src/main.ts'' ''let x'' False)))
            (snd (snd (writeFile example_manager example_os ''src/main.ts'' ''let x'' False)))
            ''src/main.ts'') = Inr ''let x''"
proof -
  have s: "fst (writeFile example_manager example_os ''src/main.ts'' ''let x'' False) = Inr ()"
    by (simp add: writeFile_def writeFile_try_def acquire_def release_def example_defs
        validate_defs path_defs fs_defs byteLength_def)
  then obtain m' w' where
    e: "writeFile example_manager example_os ''src/main.ts'' ''let x'' False = (Inr (), m', w')"
    by (cases "writeFile example_manager example_os ''src/main.ts'' ''let x'' False") auto
  from write_then_read[OF e] e show ?thesis by simp
qed

subsection \<open>Backups before mutation\<close>

lemma createBackup_counter [simp]:
  "createBackup (m\<lparr>activeOperations := a\<rparr>) w p = createBackup m w p"
  by (simp add: createBackup_def)

lemma acquire_createBackup: "acquire m = Inr m1 \<Longrightarrow> createBackup m1 w p = createBackup m w p"
  by (auto simp: acquire_def split: if_splits)

lemma foldl_mkdir_nodes:
  "foldl (\<lambda>f q. f(q \<mapsto> Dir)) f ps x = (if x \<in> set ps then Some Dir else f x)"
  by (induction ps arbitrary: f) auto

lemma find_None_set: "find P xs = None \<Longrightarrow> x \<in> set xs \<Longrightarrow> \<not> P x"
  by (simp add: find_None_iff)

lemma fs_mkdir_recursive_keeps:
  assumes "fs_mkdir_recursive w p = Inr w'" "os_nodes w q \<noteq> None"
  shows "os_nodes w' q = os_nodes w q"
proof -
  let ?ps = "path_prefixes p"
  from assms(1) have f: "find (\<lambda>q. is_file (os_nodes w q)) ?ps = None"
    and w': "os_nodes w' = foldl (\<lambda>f q. f(q \<mapsto> Dir)) (os_nodes w) ?ps"
    by (auto simp: fs_mkdir_recursive_def Let_def split: option.splits)
  show ?thesis
  proof (cases "q \<in> set ?ps")
    case True
    with f have "\<not> is_file (os_nodes w q)" by (rule find_None_set)
    with assms(2) have "os_nodes w q = Some Dir"
      by (auto simp: is_file_def split: option.splits node.splits)
    with True show ?thesis by (simp add: w' foldl_mkdir_nodes)
  next
    case False
    then show ?thesis by (simp add: w' foldl_mkdir_nodes)
  qed
qed

lemma createBackup_failure_keeps:
  assumes "createBackup m w p = (Inl e, w1)" "os_nodes w q \<noteq> None"
  shows "os_nodes w1 q = os_nodes w q"
  using assms
  by (auto simp: createBackup_def Let_def split: sum.splits dest: fs_mkdir_recursive_keeps)

lemma deleteFile_aborts_on_failed_backup:
  assumes a: "acquire m = Inr m1"
      and v: "validatePath (os_cwd w) m filePath True = Inr safePath"
      and ex: "os_nodes w safePath \<noteq> None"
      and cb: "createBackup m w safePath = (Inl e, w1)"
  shows "deleteFile m w filePath True = (Inl (Failed ''delete'' (IOError e)), m, w1)
         \<and> os_nodes w1 safePath = os_nodes w safePath"
proof -
  from ex have acc: "fs_access w safePath = Inr ()"
    by (auto simp: fs_access_def split: option.splits)
  have "deleteFile_try m1 w filePath True = (Inl (IOError e), w1)"
    using v acc cb acquire_validatePath[OF a] acquire_createBackup[OF a]
    by (simp add: deleteFile_try_def)
  then show ?thesis
    using a createBackup_failure_keeps[OF cb ex]
    by (simp add: deleteFile_def release_acquire deleteFile_catch_def is_access_denied_def)
qed

lemma renameFile_aborts_on_failed_backup:
  assumes a: "acquire m = Inr m1"
      and v: "validatePath (os_cwd w) m oldPath True = Inr safeOldPath"
      and v': "validatePath (os_cwd w) m newPath True = Inr safeNewPath"
      and ex: "os_nodes w safeOldPath \<noteq> None"
      and acc': "fs_access w safeNewPath = Inl ENOENT"
      and cb: "createBackup m w safeOldPath = (Inl e, w1)"
  shows "renameFile m w oldPath newPath True
           = (Inl (if e = EEXIST then IOError e else Failed ''rename/move'' (IOError e)), m, w1)
         \<and> os_nodes w1 safeOldPath = os_nodes w safeOldPath"
proof -
  from ex have acc: "fs_access w safeOldPath = Inr ()"
    by (auto simp: fs_access_def split: option.splits)
  have "renameFile_try m1 w oldPath newPath True = (Inl (IOError e), w1)"
    using v v' acc acc' cb acquire_validatePath[OF a] acquire_createBackup[OF a]
    by (simp add: renameFile_try_def)
  then show ?thesis
    using a createBackup_failure_keeps[OF cb ex]
    by (simp add: renameFile_def release_acquire renameFile_catch_def is_access_denied_def)
qed

text \<open>
  The \<open>catch\<close> block of \<open>renameFile\<close> lets an error pass whose message holds the
  words \<open>already exists\<close>. The message of \<open>EEXIST\<close> does, so when the backup fails on
  the regular file \<open>.backups\<close> the error of the system reaches the caller as it is,
  without the words \<open>Failed to rename/move\<close>.
\<close>

lemma renameFile_passes_EEXIST:
  "fst (renameFile example_manager blocked_backup_os ''notes.txt'' ''moved.txt'' True)
     = Inl (IOError EEXIST)
   \<and> os_nodes (snd (snd (renameFile example_manager blocked_backup_os ''notes.txt''
                           ''moved.txt'' True))) ''/ws/notes.txt'' = Some (File ''abcabd'')
   \<and> os_nodes (snd (snd (renameFile example_manager blocked_backup_os ''notes.txt''
                           ''moved.txt'' True))) ''/ws/moved.txt'' = None"
  by (simp add: renameFile_def renameFile_try_def renameFile_catch_def is_access_denied_def
      writeFile_def writeFile_try_def createBackup_def acquire_def release_def
      example_defs blocked_backup_os_def validate_defs path_defs fs_defs byteLength_def)

lemma partialWriteFile_aborts_on_failed_backup:
  assumes a: "acquire m = Inr m1"
      and v: "validatePath (os_cwd w) m filePath True = Inr safePath"
      and rd: "fs_readFile_utf8 w safePath = Inr currentContent"
      and i1: "indexOf currentContent oldContent 0 = Some oldIndex"
      and i2: "indexOf currentContent oldContent (oldIndex + 1) = None"
      and sz: "Buffer_byteLength (substring currentContent 0 oldIndex @ newContent
                 @ substring_from currentContent (oldIndex + length oldContent))
               \<le> maxFileSize (config m)"
      and cb: "createBackup m w safePath = (Inl e, w1)"
  shows "partialWriteFile m w filePath oldContent newContent
           = (Inl (Failed ''partial write'' (IOError e)), m, w1)
         \<and> os_nodes w1 safePath = os_nodes w safePath"
proof -
  from rd have ex: "os_nodes w safePath \<noteq> None"
    by (auto simp: fs_readFile_utf8_def fs_readFile_def split: option.splits)
  have "partialWriteFile_try m1 w filePath oldContent newContent = (Inl (IOError e), w1)"
    using v rd i1 i2 sz cb acquire_validatePath[OF a] acquire_createBackup[OF a] acquire_config[OF a]
    by (simp add: partialWriteFile_try_def Let_def)
  then show ?thesis
    using a createBackup_failure_keeps[OF cb ex]
    by (simp add: partialWriteFile_def release_acquire)
qed

text \<open>
  With a backup requested, \<open>deleteFile\<close>, \<open>renameFile\<close> and \<open>partialWriteFile\<close>
  stop when the backup fails, and the target is as it was (the three lemmas above).
  \<open>writeFile\<close> does not.

  C2 (the write path). \<open>writeFile\<close> wraps the existence check and the backup in one
  \<open>try\<close> whose \<open>catch\<close> is empty, so a failure of the backup itself is dropped like
  the absence of the file. Here a first write has put a regular file \<open>.backups\<close>
  into the root (the name passes validation), so the backup directory cannot be created:
  the backup of the existing file fails, and the write with \<open>backup = true\<close> still
  succeeds and replaces the content.
\<close>

theorem write_proceeds_after_failed_backup:
  "fst (writeFile example_manager example_os ''.backups'' ''x'' False) = Inr ()
   \<and> os_nodes blocked_backup_os ''/ws/.backups'' = Some (File ''x'')
   \<and> os_nodes blocked_backup_os ''/ws/notes.txt'' = Some (File ''abcabd'')
   \<and> fst (createBackup example_manager blocked_backup_os ''/ws/notes.txt'') = Inl EEXIST
   \<and> fst (writeFile example_manager blocked_backup_os ''notes.txt'' ''new'' True) = Inr ()
   \<and> os_nodes (snd (snd (writeFile example_manager blocked_backup_os ''notes.txt'' ''new'' True)))
        ''/ws/notes.txt'' = Some (File ''new'')"
  by (simp add: writeFile_def writeFile_try_def createBackup_def acquire_def release_def
      example_defs blocked_backup_os_def validate_defs path_defs fs_defs byteLength_def)

subsection \<open>Partial writes\<close>

lemma upt_Suc_shift: "[0..<Suc (Suc n)] = 0 # map Suc [0..<Suc n]"
  by (simp add: upt_conv_Cons map_Suc_upt del: upt_Suc)

lemma occurrences_count_from: "occurrences pat s = count_from pat s"
proof (induction s)
  case Nil
  then show ?case by (simp add: occurrences_def)
next
  case (Cons c cs)
  have "filter (\<lambda>i. prefix pat (drop i (c # cs))) [0..<Suc (Suc (length cs))]
        = (if prefix pat (c # cs) then [0] else [])
          @ map Suc (filter (\<lambda>i. prefix pat (drop i cs)) [0..<Suc (length cs)])"
    by (simp only: upt_Suc_shift) (simp add: filter_map comp_def)
  then show ?case using Cons by (simp add: occurrences_def)
qed

lemma find_from_None: "find_from pat s k = None \<longleftrightarrow> count_from pat s = 0"
  by (induction s arbitrary: k) auto

lemma find_from_Some:
  "find_from pat s k = Some j \<Longrightarrow>
     \<exists>i. j = k + i \<and> i \<le> length s \<and> prefix pat (drop i s)
         \<and> count_from pat (drop i s) = count_from pat s"
proof (induction s arbitrary: k)
  case Nil
  then show ?case by (auto split: if_splits)
next
  case (Cons c cs)
  show ?case
  proof (cases "prefix pat (c # cs)")
    case True
    with Cons.prems have "j = k" by simp
    with True show ?thesis by (intro exI[of _ 0]) simp
  next
    case False
    with Cons.prems have "find_from pat cs (Suc k) = Some j" by simp
    from Cons.IH[OF this] obtain i where
      "j = Suc k + i" "i \<le> length cs" "prefix pat (drop i cs)"
      "count_from pat (drop i cs) = count_from pat cs" by blast
    with False show ?thesis by (intro exI[of _ "Suc i"]) simp
  qed
qed

lemma count_from_drop:
  "i < length s \<Longrightarrow> count_from pat (drop i s)
     = (if prefix pat (drop i s) then 1 else 0) + count_from pat (drop (Suc i) s)"
  by (simp add: Cons_nth_drop_Suc[symmetric])

lemma count_from_Nil_le: "count_from pat [] \<le> 1"
  by simp

lemma first_search_none:
  "indexOf s pat 0 = None \<longleftrightarrow> occurrences pat s = 0"
  by (simp add: indexOf_def find_from_None occurrences_count_from)

lemma searches_unique:
  assumes "occurrences pat s = 1" "pat \<noteq> []"
  shows "\<exists>i. indexOf s pat 0 = Some i \<and> indexOf s pat (i + 1) = None
            \<and> s = take i s @ pat @ drop (i + length pat) s
            \<and> i \<le> length s \<and> prefix pat (drop i s)"
proof -
  from assms(1) have c: "count_from pat s = 1" by (simp add: occurrences_count_from)
  then have "find_from pat s 0 \<noteq> None" by (simp add: find_from_None)
  then obtain j where j: "find_from pat s 0 = Some j" by auto
  from find_from_Some[OF j] obtain i where i: "j = i" "i \<le> length s" "prefix pat (drop i s)"
    "count_from pat (drop i s) = count_from pat s" by auto
  from i(3) assms(2) have lt: "i < length s" by (cases "i < length s") auto
  from count_from_drop[OF lt, of pat] i(3,4) c have "count_from pat (drop (Suc i) s) = 0" by simp
  then have "find_from pat (drop (Suc i) s) (Suc i) = None" by (simp add: find_from_None)
  with lt have second: "indexOf s pat (i + 1) = None" by (simp add: indexOf_def min_def)
  from i(3) obtain post where "drop i s = pat @ post" by (auto simp: prefix_def)
  then have "s = take i s @ pat @ drop (i + length pat) s"
    by (metis append_eq_conv_conj append_take_drop_id drop_drop add.commute)
  with j i(1,2,3) second show ?thesis by (auto simp: indexOf_def)
qed

lemma occurrences_one_position:
  assumes occ: "occurrences pat s = 1"
      and j: "j \<le> length s" "prefix pat (drop j s)"
      and k: "k \<le> length s" "prefix pat (drop k s)"
  shows "j = k"
proof -
  let ?xs = "filter (\<lambda>i. prefix pat (drop i s)) [0..<Suc (length s)]"
  have "distinct ?xs" by simp
  from distinct_card[OF this] occ have "card (set ?xs) = 1" by (simp only: occurrences_def)
  then obtain x where x: "set ?xs = {x}" by (rule card_1_singletonE)
  have "j \<in> set ?xs" "k \<in> set ?xs"
    using j k by (simp_all add: less_Suc_eq_le del: upt_Suc)
  with x show ?thesis by simp
qed

lemma unique_occurrence_found:
  assumes occ: "occurrences pat s = 1" and ne: "pat \<noteq> []" and dec: "s = pre @ pat @ post"
  shows "indexOf s pat 0 = Some (length pre) \<and> indexOf s pat (length pre + 1) = None
         \<and> substring s 0 (length pre) = pre
         \<and> substring_from s (length pre + length pat) = post"
proof -
  from searches_unique[OF occ ne] obtain i where
    i: "indexOf s pat 0 = Some i" "indexOf s pat (i + 1) = None"
       "i \<le> length s" "prefix pat (drop i s)" by blast
  have "length pre \<le> length s" "prefix pat (drop (length pre) s)"
    by (simp_all add: dec)
  from occurrences_one_position[OF occ i(3,4) this] have "i = length pre" .
  with i(1,2) show ?thesis by (simp add: substring_def substring_from_def dec)
qed

lemma searches_ambiguous:
  assumes "occurrences pat s \<ge> 2"
  shows "\<exists>i k. indexOf s pat 0 = Some i \<and> indexOf s pat (i + 1) = Some k"
proof -
  from assms have c: "count_from pat s \<ge> 2" by (simp add: occurrences_count_from)
  then have "find_from pat s 0 \<noteq> None" by (simp add: find_from_None)
  then obtain j where j: "find_from pat s 0 = Some j" by auto
  from find_from_Some[OF j] obtain i where i: "j = i" "i \<le> length s" "prefix pat (drop i s)"
    "count_from pat (drop i s) = count_from pat s" by auto
  have lt: "i < length s"
  proof (rule ccontr)
    assume "\<not> i < length s"
    with i(2) have "drop i s = []" by simp
    with i(4) c count_from_Nil_le[of pat] show False by simp
  qed
  from count_from_drop[OF lt, of pat] i(3,4) c have "count_from pat (drop (Suc i) s) \<noteq> 0" by simp
  then have "find_from pat (drop (Suc i) s) (Suc i) \<noteq> None" by (simp add: find_from_None)
  with lt obtain k where "indexOf s pat (i + 1) = Some k" by (auto simp: indexOf_def min_def)
  with j i(1) show ?thesis by (auto simp: indexOf_def)
qed

lemma posix_basename_no_sep: "CHR ''/'' \<notin> set (posix_basename p)"
proof -
  have "\<forall>c\<in>set (takeWhile (\<lambda>c. c \<noteq> CHR ''/'') xs). c \<noteq> CHR ''/''" for xs :: string
    by (auto dest: set_takeWhileD)
  then show ?thesis by (auto simp: posix_basename_def)
qed

lemma posix_normalize_not_Nil: "posix_normalize p \<noteq> []"
  by (auto simp: posix_normalize_def Let_def)

lemma posix_join_not_Nil: "posix_join args \<noteq> []"
  by (auto simp: posix_join_def Let_def posix_normalize_not_Nil)

lemma posix_basename_root_name:
  "f \<noteq> [] \<Longrightarrow> CHR ''/'' \<notin> set f \<Longrightarrow> posix_basename (CHR ''/'' # f) = f"
  using posix_basename_name[of f "[]"] by simp

lemmas normalize_segments_snoc_Cons = normalize_segments_snoc[simplified]
lemmas posix_basename_name_Cons = posix_basename_name[simplified]

lemma posix_basename_join:
  assumes f: "clean_seg f" and d: "d \<noteq> []"
  shows "posix_basename (posix_join [d, f]) = f"
proof -
  from clean_segD[OF f] have fs: "f \<noteq> []" "last f \<noteq> CHR ''/''" "CHR ''/'' \<notin> set f" by auto
  let ?x = "d @ CHR ''/'' # f"
  have j: "posix_join [d, f] = posix_normalize ?x"
    using d fs by (simp add: posix_join_def)
  have segs: "normalize_segments b ?x = normalize_segments b d @ [f]" for b
    by (simp only: normalize_segments_snoc_Cons[OF fs(3)] normalize_step_clean_seg[OF f])
  have lastx: "last ?x \<noteq> CHR ''/''" using fs by simp
  have p: "normalizeString ?x b = (if normalize_segments b d = [] then f
              else join_with ''/'' (normalize_segments b d) @ CHR ''/'' # f)" for b
    unfolding normalizeString_def segs by (simp add: join_with_snoc)
  have pne: "normalizeString ?x b \<noteq> []" for b unfolding p using fs by simp
  have "posix_basename (pre @ normalizeString ?x b) = f" if "pre = [] \<or> pre = ''/''" for pre b
    unfolding p using that posix_basename_name_Cons[OF fs(1,3)] posix_basename_plain[OF f]
      posix_basename_root_name[OF fs(1,3)]
      posix_basename_name_Cons[OF fs(1,3), of "CHR ''/'' # join_with ''/'' (normalize_segments b d)"]
    by auto
  from this[of "[]"] this[of "''/''"] show ?thesis
    unfolding j posix_normalize_def Let_def
    using lastx pne by auto
qed

lemma backup_name_clean:
  assumes "CHR ''/'' \<notin> set clock"
  shows "clean_seg (posix_basename p @ ''.''
           @ map (\<lambda>c. if c = CHR '':'' \<or> c = CHR ''.'' then CHR ''-'' else c) clock @ ''.backup'')"
proof -
  let ?n = "posix_basename p @ ''.''
           @ map (\<lambda>c. if c = CHR '':'' \<or> c = CHR ''.'' then CHR ''-'' else c) clock @ ''.backup''"
  have n1: "?n \<noteq> ''.''"
  proof
    assume "?n = ''.''"
    from arg_cong[OF this, of length] show False by simp
  qed
  have n2: "?n \<noteq> ''..''"
  proof
    assume "?n = ''..''"
    from arg_cong[OF this, of length] show False by simp
  qed
  have "?n \<noteq> []" by simp
  note n1 n2 this
  moreover have "CHR ''/'' \<notin> set ?n" using assms posix_basename_no_sep[of p] by auto
  ultimately show ?thesis by (simp add: clean_seg_def)
qed

lemma backup_path_differs:
  assumes "CHR ''/'' \<notin> set (os_clock w)"
  shows "backup_path m w p \<noteq> p"
proof
  assume e: "backup_path m w p = p"
  have "posix_basename (backup_path m w p) = posix_basename p @ ''.''
           @ map (\<lambda>c. if c = CHR '':'' \<or> c = CHR ''.'' then CHR ''-'' else c) (os_clock w) @ ''.backup''"
    unfolding backup_path_def
    by (rule posix_basename_join[OF backup_name_clean[OF assms] posix_join_not_Nil])
  with e have "length (posix_basename p) = length (posix_basename p @ ''.''
           @ map (\<lambda>c. if c = CHR '':'' \<or> c = CHR ''.'' then CHR ''-'' else c) (os_clock w) @ ''.backup'')"
    by simp
  then show False by simp
qed

lemma createBackup_success:
  assumes cb: "createBackup m w p = (Inr (), w1)" and target: "os_nodes w p = Some (File c)"
  shows "os_nodes w1 (backup_path m w p) = Some (File c) \<and> os_nodes w1 p = Some (File c)"
proof -
  let ?dir = "posix_join [normalizedAllowedDir m, ''.backups'']"
  from cb obtain wm where mk: "fs_mkdir_recursive w ?dir = Inr wm"
    by (auto simp: createBackup_def Let_def split: sum.splits)
  from fs_mkdir_recursive_cwd[OF mk] have clk: "os_clock wm = os_clock w" by simp
  from cb mk clk have cp: "fs_copyFile wm p (backup_path m w p) = Inr w1"
    by (auto simp: createBackup_def Let_def backup_path_def split: sum.splits)
  from fs_mkdir_recursive_keeps[OF mk, of p] target have keep: "os_nodes wm p = Some (File c)" by simp
  then have "fs_readFile wm p = Inr c" by (simp add: fs_readFile_def)
  with cp have "fs_writeFile wm (backup_path m w p) c = Inr w1" by (simp add: fs_copyFile_def)
  from fs_writeFile_result[OF this] keep show ?thesis by simp
qed

lemma substring_take: "substring s 0 i = take i s"
  by (simp add: substring_def)

subsection \<open>Bytes and strings\<close>

lemma utf8_run_ascii: "\<forall>b\<in>set bs. b < 0x80 \<Longrightarrow> utf8_run 0 0 0x80 0xBF bs = bs"
  by (induction bs) simp_all

lemma utf8_decode_ascii:
  "\<forall>c\<in>set s. of_char c < (0x80::nat) \<Longrightarrow> utf8_decode s = map of_char s"
  by (simp add: utf8_decode_def utf8_run_ascii)

lemma toString_utf8_ascii:
  "\<forall>c\<in>set s. of_char c < (0x80::nat) \<Longrightarrow> toString_utf8 s = ascii s"
proof -
  assume a: "\<forall>c\<in>set s. of_char c < (0x80::nat)"
  then have "concat (map utf16_encode (map of_char s)) = map of_char s"
    by (induction s) (simp_all add: utf16_encode_def)
  with a show ?thesis by (simp add: toString_utf8_def utf8_decode_ascii ascii_def)
qed

lemma utf16_decode_plain:
  "\<not> is_high_surrogate u \<Longrightarrow> \<not> is_low_surrogate u \<Longrightarrow>
     utf16_decode (u # us) = u # utf16_decode us"
  by (cases us) simp_all

lemma utf16_decode_ascii: "\<forall>u\<in>set us. u < 0x80 \<Longrightarrow> utf16_decode us = us"
  by (induction us) (simp_all add: utf16_decode_plain is_high_surrogate_def is_low_surrogate_def)

lemma Buffer_from_utf8_ascii:
  "\<forall>c\<in>set s. of_char c < (0x80::nat) \<Longrightarrow> Buffer_from_utf8 (ascii s) = s"
proof -
  assume a: "\<forall>c\<in>set s. of_char c < (0x80::nat)"
  then have "utf8_of (map of_char s) = s"
    by (induction s) (simp_all add: utf8_of_def utf8_encode_def)
  with a show ?thesis by (simp add: Buffer_from_utf8_def ascii_def utf16_decode_ascii)
qed

lemma utf8_run_encode1:
  "cp < 0x80 \<Longrightarrow>
     utf8_run 0 0 0x80 0xBF (map of_char (utf8_encode cp) @ bs) = cp # utf8_run 0 0 0x80 0xBF bs"
  by (simp add: utf8_encode_def)

lemma utf8_run_encode2:
  assumes "0x80 \<le> cp" "cp < 0x800"
  shows "utf8_run 0 0 0x80 0xBF (map of_char (utf8_encode cp) @ bs)
           = cp # utf8_run 0 0 0x80 0xBF bs"
proof -
  define a where "a = cp div 0x40"
  define b where "b = cp mod 0x40"
  have cp: "cp = a * 0x40 + b" by (simp add: a_def b_def)
  have r: "2 \<le> a" "a < 0x20" "b < 0x40" using assms by (simp_all add: a_def b_def)
  have e: "map of_char (utf8_encode cp) = [0xC0 + a, 0x80 + b]"
    using assms r by (simp add: utf8_encode_def a_def[symmetric] b_def[symmetric])
  have m: "(0xC0 + a) mod 0x20 = a" "(0x80 + b) mod 0x40 = b"
    using r mod_mult_self3[of 6 32 a] mod_mult_self3[of 2 64 b] by simp_all
  show ?thesis unfolding e using r by (simp add: cp m)
qed

lemma code_point_split3:
  fixes cp :: nat
  shows "cp = (cp div 0x1000 * 0x40 + cp div 0x40 mod 0x40) * 0x40 + cp mod 0x40"
proof -
  have "cp div 0x1000 = cp div 0x40 div 0x40"
    using div_mult2_eq[of cp "0x40" "0x40"] by simp
  then have "cp div 0x1000 * 0x40 + cp div 0x40 mod 0x40 = cp div 0x40" by simp
  then show ?thesis by simp
qed

lemma code_point_split4:
  fixes cp :: nat
  shows "cp = ((cp div 0x40000 * 0x40 + cp div 0x1000 mod 0x40) * 0x40 + cp div 0x40 mod 0x40) * 0x40
               + cp mod 0x40"
proof -
  have "cp div 0x40000 = cp div 0x1000 div 0x40"
    using div_mult2_eq[of cp "0x1000" "0x40"] by simp
  then have "cp div 0x40000 * 0x40 + cp div 0x1000 mod 0x40 = cp div 0x1000" by simp
  with code_point_split3[of cp] show ?thesis by simp
qed

lemma utf8_run_encode3:
  assumes "0x800 \<le> cp" "cp < 0x10000" "cp < 0xD800 \<or> 0xE000 \<le> cp"
  shows "utf8_run 0 0 0x80 0xBF (map of_char (utf8_encode cp) @ bs)
           = cp # utf8_run 0 0 0x80 0xBF bs"
proof -
  define a where "a = cp div 0x1000"
  define b where "b = cp div 0x40 mod 0x40"
  define c where "c = cp mod 0x40"
  have cp: "cp = (a * 0x40 + b) * 0x40 + c" unfolding a_def b_def c_def by (rule code_point_split3)
  have bc: "b < 0x40" "c < 0x40" by (simp_all add: b_def c_def)
  have r: "a < 0x10" "a = 0 \<longrightarrow> 0x20 \<le> b" "a = 0xD \<longrightarrow> b < 0x20"
    using assms bc unfolding cp by auto
  have e: "map of_char (utf8_encode cp) = [0xE0 + a, 0x80 + b, 0x80 + c]"
    using assms r bc
    by (simp add: utf8_encode_def a_def[symmetric] b_def[symmetric] c_def[symmetric])
  have m: "(0xE0 + a) mod 0x10 = a" "(0x80 + b) mod 0x40 = b" "(0x80 + c) mod 0x40 = c"
    using r(1) bc mod_mult_self3[of 14 16 a] mod_mult_self3[of 2 64 b] mod_mult_self3[of 2 64 c]
    by simp_all
  show ?thesis unfolding e using r bc m by (auto simp: cp)
qed

lemma utf8_run_encode4:
  assumes "0x10000 \<le> cp" "cp < 0x110000"
  shows "utf8_run 0 0 0x80 0xBF (map of_char (utf8_encode cp) @ bs)
           = cp # utf8_run 0 0 0x80 0xBF bs"
proof -
  define a where "a = cp div 0x40000"
  define b where "b = cp div 0x1000 mod 0x40"
  define c where "c = cp div 0x40 mod 0x40"
  define d where "d = cp mod 0x40"
  have cp: "cp = ((a * 0x40 + b) * 0x40 + c) * 0x40 + d"
    unfolding a_def b_def c_def d_def by (rule code_point_split4)
  have bc: "b < 0x40" "c < 0x40" "d < 0x40" by (simp_all add: b_def c_def d_def)
  have r: "a < 5" "a = 0 \<longrightarrow> 0x10 \<le> b" "a = 4 \<longrightarrow> b < 0x10"
    using assms bc unfolding cp by auto
  have e: "map of_char (utf8_encode cp) = [0xF0 + a, 0x80 + b, 0x80 + c, 0x80 + d]"
    using assms r bc
    by (simp add: utf8_encode_def a_def[symmetric] b_def[symmetric] c_def[symmetric]
        d_def[symmetric])
  have m: "(0xF0 + a) mod 8 = a" "(0x80 + b) mod 0x40 = b" "(0x80 + c) mod 0x40 = c"
    "(0x80 + d) mod 0x40 = d"
    using r(1) bc mod_mult_self3[of 30 8 a] mod_mult_self3[of 2 64 b] mod_mult_self3[of 2 64 c]
      mod_mult_self3[of 2 64 d]
    by simp_all
  show ?thesis unfolding e using r bc m by (auto simp: cp)
qed

lemma utf8_run_encode:
  "scalar_value cp \<Longrightarrow>
     utf8_run 0 0 0x80 0xBF (map of_char (utf8_encode cp) @ bs) = cp # utf8_run 0 0 0x80 0xBF bs"
  using utf8_run_encode1[of cp bs] utf8_run_encode2[of cp bs] utf8_run_encode3[of cp bs]
    utf8_run_encode4[of cp bs]
  unfolding scalar_value_def by linarith

text \<open>
  The encoding of a text is read as that text, and the string read is written back as
  the same bytes: a file that holds the encoding of a text is seen by the program as it
  is.
\<close>

lemma utf8_decode_encode:
  "\<forall>cp\<in>set cps. scalar_value cp \<Longrightarrow> utf8_decode (utf8_of cps) = cps"
  by (induction cps) (simp_all add: utf8_decode_def utf8_of_def utf8_run_encode)

lemma utf16_decode_encode:
  "\<forall>cp\<in>set cps. scalar_value cp \<Longrightarrow> utf16_decode (concat (map utf16_encode cps)) = cps"
proof (induction cps)
  case Nil
  then show ?case by simp
next
  case (Cons cp cps)
  then have sc: "scalar_value cp" and rest: "utf16_decode (concat (map utf16_encode cps)) = cps"
    by simp_all
  show ?case
  proof (cases "cp < 0x10000")
    case True
    with sc have "\<not> is_high_surrogate cp" "\<not> is_low_surrogate cp"
      by (auto simp: scalar_value_def is_high_surrogate_def is_low_surrogate_def)
    moreover from True have "utf16_encode cp = [cp]" by (simp add: utf16_encode_def)
    ultimately show ?thesis using rest by (simp add: utf16_decode_plain)
  next
    case False
    define x where "x = cp - 0x10000"
    from False sc have x: "x < 0x100000" and cp: "cp = 0x10000 + x"
      by (auto simp: scalar_value_def x_def)
    define h where "h = x div 0x400"
    define l where "l = x mod 0x400"
    have hl: "h < 0x400" "l < 0x400" "x = h * 0x400 + l"
      using x by (simp_all add: h_def l_def)
    have "utf16_encode cp = [0xD800 + h, 0xDC00 + l]"
      using False by (simp add: utf16_encode_def x_def[symmetric] h_def l_def)
    moreover have "is_high_surrogate (0xD800 + h)" "is_low_surrogate (0xDC00 + l)"
      using hl by (simp_all add: is_high_surrogate_def is_low_surrogate_def)
    ultimately show ?thesis using rest hl cp by simp
  qed
qed

lemma toString_utf8_encode:
  "\<forall>cp\<in>set cps. scalar_value cp \<Longrightarrow>
     toString_utf8 (utf8_of cps) = concat (map utf16_encode cps)"
  by (simp add: toString_utf8_def utf8_decode_encode)

lemma text_file_read_and_written_back:
  "\<forall>cp\<in>set cps. scalar_value cp \<Longrightarrow>
     Buffer_from_utf8 (toString_utf8 (utf8_of cps)) = utf8_of cps"
  by (simp add: Buffer_from_utf8_def toString_utf8_encode utf16_decode_encode)

text \<open>
  A string that is written and read again comes back as the code units of its code
  points: as it was if no surrogate in it stands without its partner.
\<close>

lemma utf16_decode_scalar:
  "\<forall>u\<in>set s. u < 0x10000 \<Longrightarrow> \<forall>cp\<in>set (utf16_decode s). scalar_value cp"
proof (induction s rule: utf16_decode.induct)
  case 1
  then show ?case by simp
next
  case (2 u)
  then show ?case
    by (auto simp: scalar_value_def is_high_surrogate_def is_low_surrogate_def)
next
  case (3 u v us)
  show ?case
  proof (cases "is_high_surrogate u \<and> is_low_surrogate v")
    case True
    then have e: "utf16_decode (u # v # us)
                    = (0x10000 + (u - 0xD800) * 0x400 + (v - 0xDC00)) # utf16_decode us"
      by simp
    from True have "scalar_value (0x10000 + (u - 0xD800) * 0x400 + (v - 0xDC00))"
      by (auto simp: scalar_value_def is_high_surrogate_def is_low_surrogate_def)
    moreover have "\<forall>cp\<in>set (utf16_decode us). scalar_value cp"
      using 3(1)[OF True] 3(3) by simp
    ultimately show ?thesis unfolding e by simp
  next
    case False
    then have e: "utf16_decode (u # v # us)
                    = (if is_high_surrogate u \<or> is_low_surrogate u then 0xFFFD else u)
                        # utf16_decode (v # us)"
      by simp
    have "scalar_value (if is_high_surrogate u \<or> is_low_surrogate u then 0xFFFD else u)"
      using 3(3) by (auto simp: scalar_value_def is_high_surrogate_def is_low_surrogate_def)
    moreover have "\<forall>cp\<in>set (utf16_decode (v # us)). scalar_value cp"
      using 3(2)[OF False] 3(3) by simp
    ultimately show ?thesis unfolding e by simp
  qed
qed

lemma written_string_read_back:
  "\<forall>u\<in>set s. u < 0x10000 \<Longrightarrow>
     toString_utf8 (Buffer_from_utf8 s) = concat (map utf16_encode (utf16_decode s))"
  by (simp add: Buffer_from_utf8_def toString_utf8_encode utf16_decode_scalar)

lemma fs_readFile_utf8_File:
  "os_nodes w p = Some (File bytes) \<Longrightarrow> fs_readFile_utf8 w p = Inr (toString_utf8 bytes)"
  by (simp add: fs_readFile_utf8_def fs_readFile_def)

text \<open>
  The byte \<open>0xFF\<close> is read as \<open>U+FFFD\<close>, a character that breaks off is read as one
  \<open>U+FFFD\<close>, and the encoding of a text is read as that text: \<open>U+00E9\<close>, \<open>U+20AC\<close>
  and \<open>U+1F600\<close> here, the last as two code units. Written, \<open>U+FFFD\<close> takes three
  bytes, and so does a surrogate without its partner.
\<close>

lemma utf8_examples:
  "toString_utf8 [CHR 0xFF, CHR ''a'', CHR ''b''] = [0xFFFD, 0x61, 0x62]"
  "toString_utf8 [CHR 0xE2, CHR 0x82, CHR ''x''] = [0xFFFD, 0x78]"
  "toString_utf8 [CHR 0xC3, CHR 0xA9, CHR 0xE2, CHR 0x82, CHR 0xAC, CHR 0xF0, CHR 0x9F, CHR 0x98,
     CHR 0x80] = [0xE9, 0x20AC, 0xD83D, 0xDE00]"
  "Buffer_from_utf8 [0xE9, 0x20AC, 0xD83D, 0xDE00]
     = [CHR 0xC3, CHR 0xA9, CHR 0xE2, CHR 0x82, CHR 0xAC, CHR 0xF0, CHR 0x9F, CHR 0x98, CHR 0x80]"
  "Buffer_from_utf8 [0xFFFD, 0x5A, 0x62] = [CHR 0xEF, CHR 0xBF, CHR 0xBD, CHR ''Z'', CHR ''b'']"
  "Buffer_from_utf8 [0x5A, 0xDE00] = [CHR ''Z'', CHR 0xEF, CHR 0xBF, CHR 0xBD]"
  "Buffer_byteLength [0xE9, 0x20AC, 0xD83D, 0xDE00] = 9"
  by (simp_all add: toString_utf8_def Buffer_byteLength_def Buffer_from_utf8_def utf8_of_def
      utf8_decode_def utf8_encode_def utf16_encode_def is_high_surrogate_def
      is_low_surrogate_def char_of_eq_iff)

lemmas utf8_examples_defs =
  toString_utf8_def Buffer_byteLength_def Buffer_from_utf8_def fs_writeFile_utf8_def utf8_of_def
  utf8_decode_def utf8_encode_def utf16_encode_def is_high_surrogate_def is_low_surrogate_def
  char_of_eq_iff

text \<open>
  C3 (as amended). Let the path be valid and name a file, and let \<open>currentContent\<close> be
  the string that the bytes of the file are read as. At the maximum of running
  operations the partial write is refused with \<open>ResourceExhausted\<close>. Otherwise: if the
  fragment occurs nowhere in the string, the partial write fails with \<open>NoMatch\<close>; if it
  occurs twice or more, with \<open>AmbiguousMatch\<close>; in both cases nothing changes. If a
  non-empty fragment occurs exactly once, the string is \<open>pre @ oldContent @ post\<close> for
  some \<open>pre\<close> and \<open>post\<close>, and for any such: if the string with the fragment
  replaced, written as UTF-8, is above the size limit, the partial write fails with
  \<open>SizeExceeded\<close> and nothing changes; if it is within the limit and the backup fails,
  the partial write fails with the error of the backup and the file holds the bytes it
  held; if the backup can be taken, the partial write succeeds, the file holds the
  encoding of \<open>pre @ newContent @ post\<close>, and the backup file holds the bytes of the file
  as they were. (The clock text has no \<open>/\<close>, as an ISO time stamp has none.)
\<close>

theorem partialWrite_by_occurrences:
  assumes valid: "validatePath (os_cwd w) m filePath True = Inr safePath"
      and target: "os_nodes w safePath = Some (File bytes)"
      and content: "currentContent = toString_utf8 bytes"
  shows "(int (maxConcurrentOperations (config m)) \<le> activeOperations m \<longrightarrow>
            partialWriteFile m w filePath oldContent newContent = (Inl ResourceExhausted, m, w))
       \<and> (activeOperations m < int (maxConcurrentOperations (config m))
            \<and> occurrences oldContent currentContent = 0 \<longrightarrow>
            partialWriteFile m w filePath oldContent newContent
              = (Inl (Failed ''partial write'' NoMatch), m, w))
       \<and> (activeOperations m < int (maxConcurrentOperations (config m))
            \<and> 2 \<le> occurrences oldContent currentContent \<longrightarrow>
            partialWriteFile m w filePath oldContent newContent
              = (Inl (Failed ''partial write'' AmbiguousMatch), m, w))
       \<and> (occurrences oldContent currentContent = 1 \<and> oldContent \<noteq> [] \<longrightarrow>
            (\<exists>pre' post'. currentContent = pre' @ oldContent @ post'))
       \<and> (activeOperations m < int (maxConcurrentOperations (config m))
            \<and> occurrences oldContent currentContent = 1 \<and> oldContent \<noteq> []
            \<and> currentContent = pre @ oldContent @ post
            \<and> maxFileSize (config m) < Buffer_byteLength (pre @ newContent @ post) \<longrightarrow>
            partialWriteFile m w filePath oldContent newContent
              = (Inl (Failed ''partial write'' SizeExceeded), m, w))
       \<and> (activeOperations m < int (maxConcurrentOperations (config m))
            \<and> occurrences oldContent currentContent = 1 \<and> oldContent \<noteq> []
            \<and> currentContent = pre @ oldContent @ post
            \<and> Buffer_byteLength (pre @ newContent @ post) \<le> maxFileSize (config m)
            \<and> fst (createBackup m w safePath) = Inl e \<longrightarrow>
            fst (partialWriteFile m w filePath oldContent newContent)
              = Inl (Failed ''partial write'' (IOError e))
            \<and> fst (snd (partialWriteFile m w filePath oldContent newContent)) = m
            \<and> os_nodes (snd (snd (partialWriteFile m w filePath oldContent newContent))) safePath
                = Some (File bytes))
       \<and> (activeOperations m < int (maxConcurrentOperations (config m))
            \<and> occurrences oldContent currentContent = 1 \<and> oldContent \<noteq> []
            \<and> currentContent = pre @ oldContent @ post
            \<and> Buffer_byteLength (pre @ newContent @ post) \<le> maxFileSize (config m)
            \<and> fst (createBackup m w safePath) = Inr ()
            \<and> CHR ''/'' \<notin> set (os_clock w) \<longrightarrow>
            (\<exists>w'. partialWriteFile m w filePath oldContent newContent = (Inr (), m, w')
               \<and> os_nodes w' safePath = Some (File (Buffer_from_utf8 (pre @ newContent @ post)))
               \<and> os_nodes w' (backup_path m w safePath) = Some (File bytes)))"
proof -
  let ?result = "partialWriteFile m w filePath oldContent newContent"
  let ?updated = "pre @ newContent @ post"
  from target have rd: "fs_readFile_utf8 w safePath = Inr currentContent"
    by (simp add: fs_readFile_utf8_File content)
  have closed: "?result = (Inl ResourceExhausted, m, w)"
    if "int (maxConcurrentOperations (config m)) \<le> activeOperations m"
    using that by (simp add: partialWriteFile_def acquire_def)
  have none: "?result = (Inl (Failed ''partial write'' NoMatch), m, w)"
    if admitted: "activeOperations m < int (maxConcurrentOperations (config m))"
      and occ: "occurrences oldContent currentContent = 0"
  proof -
    from admitted obtain m1 where a: "acquire m = Inr m1" using acquire_Inr_iff by blast
    from occ have "indexOf currentContent oldContent 0 = None" by (simp add: first_search_none)
    then have "partialWriteFile_try m1 w filePath oldContent newContent = (Inl NoMatch, w)"
      using valid rd acquire_validatePath[OF a] by (simp add: partialWriteFile_try_def)
    then show ?thesis using a by (simp add: partialWriteFile_def release_acquire)
  qed
  have many: "?result = (Inl (Failed ''partial write'' AmbiguousMatch), m, w)"
    if admitted: "activeOperations m < int (maxConcurrentOperations (config m))"
      and occ: "2 \<le> occurrences oldContent currentContent"
  proof -
    from admitted obtain m1 where a: "acquire m = Inr m1" using acquire_Inr_iff by blast
    from searches_ambiguous[OF occ] obtain i k where
      "indexOf currentContent oldContent 0 = Some i"
      "indexOf currentContent oldContent (i + 1) = Some k" by blast
    then have "partialWriteFile_try m1 w filePath oldContent newContent = (Inl AmbiguousMatch, w)"
      using valid rd acquire_validatePath[OF a] by (simp add: partialWriteFile_try_def)
    then show ?thesis using a by (simp add: partialWriteFile_def release_acquire)
  qed
  have parts: "\<exists>pre' post'. currentContent = pre' @ oldContent @ post'"
    if occ: "occurrences oldContent currentContent = 1" and ne: "oldContent \<noteq> []"
    using searches_unique[OF occ ne] by blast
  have big: "?result = (Inl (Failed ''partial write'' SizeExceeded), m, w)"
    if admitted: "activeOperations m < int (maxConcurrentOperations (config m))"
      and occ: "occurrences oldContent currentContent = 1" and ne: "oldContent \<noteq> []"
      and dec: "currentContent = pre @ oldContent @ post"
      and sz: "maxFileSize (config m) < Buffer_byteLength ?updated"
  proof -
    from admitted obtain m1 where a: "acquire m = Inr m1" using acquire_Inr_iff by blast
    from unique_occurrence_found[OF occ ne dec]
    have "partialWriteFile_try m1 w filePath oldContent newContent = (Inl SizeExceeded, w)"
      using valid rd sz acquire_validatePath[OF a] acquire_config[OF a]
      by (simp add: partialWriteFile_try_def)
    then show ?thesis using a by (simp add: partialWriteFile_def release_acquire)
  qed
  have nobackup: "fst ?result = Inl (Failed ''partial write'' (IOError e))
            \<and> fst (snd ?result) = m
            \<and> os_nodes (snd (snd ?result)) safePath = Some (File bytes)"
    if admitted: "activeOperations m < int (maxConcurrentOperations (config m))"
      and occ: "occurrences oldContent currentContent = 1" and ne: "oldContent \<noteq> []"
      and dec: "currentContent = pre @ oldContent @ post"
      and sz: "Buffer_byteLength ?updated \<le> maxFileSize (config m)"
      and cb: "fst (createBackup m w safePath) = Inl e"
  proof -
    from admitted obtain m1 where a: "acquire m = Inr m1" using acquire_Inr_iff by blast
    from unique_occurrence_found[OF occ ne dec]
    have i1: "indexOf currentContent oldContent 0 = Some (length pre)"
      and i2: "indexOf currentContent oldContent (length pre + 1) = None"
      and pre: "substring currentContent 0 (length pre) = pre"
      and post: "substring_from currentContent (length pre + length oldContent) = post"
      by simp_all
    from sz have small: "Buffer_byteLength (substring currentContent 0 (length pre) @ newContent
                       @ substring_from currentContent (length pre + length oldContent))
                     \<le> maxFileSize (config m)"
      by (simp only: pre post)
    from cb obtain w1 where cb1: "createBackup m w safePath = (Inl e, w1)"
      by (cases "createBackup m w safePath") auto
    from partialWriteFile_aborts_on_failed_backup[OF a valid rd i1 i2 small cb1] target
    show ?thesis by simp
  qed
  have one: "\<exists>w'. ?result = (Inr (), m, w')
               \<and> os_nodes w' safePath = Some (File (Buffer_from_utf8 ?updated))
               \<and> os_nodes w' (backup_path m w safePath) = Some (File bytes)"
    if admitted: "activeOperations m < int (maxConcurrentOperations (config m))"
      and occ: "occurrences oldContent currentContent = 1" and ne: "oldContent \<noteq> []"
      and dec: "currentContent = pre @ oldContent @ post"
      and sz: "Buffer_byteLength ?updated \<le> maxFileSize (config m)"
      and cb: "fst (createBackup m w safePath) = Inr ()"
      and clk: "CHR ''/'' \<notin> set (os_clock w)"
  proof -
    from admitted obtain m1 where a: "acquire m = Inr m1" using acquire_Inr_iff by blast
    note m1 = acquire_validatePath[OF a] acquire_createBackup[OF a] acquire_config[OF a]
    note found = unique_occurrence_found[OF occ ne dec]
    from sz have small: "\<not> Buffer_byteLength ?updated > maxFileSize (config m)" by simp
    from cb obtain w1 where cb1: "createBackup m w safePath = (Inr (), w1)"
      by (cases "createBackup m w safePath") auto
    from createBackup_success[OF cb1 target]
    have b: "os_nodes w1 (backup_path m w safePath) = Some (File bytes)"
      and t: "os_nodes w1 safePath = Some (File bytes)" by simp_all
    let ?w' = "put_node w1 safePath (File (Buffer_from_utf8 ?updated))"
    from t have wr: "fs_writeFile_utf8 w1 safePath ?updated = Inr ?w'"
      by (simp add: fs_writeFile_utf8_def fs_writeFile_def)
    have "partialWriteFile_try m1 w filePath oldContent newContent = (Inr (), ?w')"
      using valid rd found small cb1 wr m1 by (simp add: partialWriteFile_try_def)
    then have r: "?result = (Inr (), m, ?w')"
      using a by (simp add: partialWriteFile_def release_acquire)
    have "os_nodes ?w' (backup_path m w safePath) = Some (File bytes)"
      using b backup_path_differs[OF clk, of m safePath] by simp
    with r show ?thesis by (intro exI[of _ ?w']) simp
  qed
  from closed none many parts big nobackup one show ?thesis by blast
qed

theorem partialWrite_by_occurrences_witness:
  "validatePath (os_cwd example_os) example_manager ''notes.txt'' True = Inr ''/ws/notes.txt''
   \<and> os_nodes example_os ''/ws/notes.txt'' = Some (File ''abcabd'')
   \<and> toString_utf8 ''abcabd'' = ascii ''abcabd''
   \<and> activeOperations example_manager < int (maxConcurrentOperations (config example_manager))
   \<and> occurrences (ascii ''ca'') (ascii ''abcabd'') = 1
   \<and> ascii ''abcabd'' = ascii ''ab'' @ ascii ''ca'' @ ascii ''bd''
   \<and> Buffer_byteLength (ascii ''ab'' @ ascii ''Z'' @ ascii ''bd'') = 5
   \<and> fst (createBackup example_manager example_os ''/ws/notes.txt'') = Inr ()
   \<and> (\<exists>w'. partialWriteFile example_manager example_os ''notes.txt'' (ascii ''ca'') (ascii ''Z'')
             = (Inr (), example_manager, w')
         \<and> os_nodes w' ''/ws/notes.txt'' = Some (File ''abZbd'')
         \<and> os_nodes w' (backup_path example_manager example_os ''/ws/notes.txt'')
             = Some (File ''abcabd''))
   \<and> occurrences (ascii ''zz'') (ascii ''abcabd'') = 0
   \<and> partialWriteFile example_manager example_os ''notes.txt'' (ascii ''zz'') (ascii ''Z'')
        = (Inl (Failed ''partial write'' NoMatch), example_manager, example_os)
   \<and> occurrences (ascii ''ab'') (ascii ''abcabd'') = 2
   \<and> partialWriteFile example_manager example_os ''notes.txt'' (ascii ''ab'') (ascii ''Z'')
        = (Inl (Failed ''partial write'' AmbiguousMatch), example_manager, example_os)
   \<and> Buffer_byteLength (ascii ''ab'' @ ascii ''123456'' @ ascii ''bd'') = 10
   \<and> partialWriteFile example_manager example_os ''notes.txt'' (ascii ''ca'') (ascii ''123456'')
        = (Inl (Failed ''partial write'' SizeExceeded), example_manager, example_os)
   \<and> partialWriteFile (example_manager\<lparr>activeOperations := 1\<rparr>) example_os ''notes.txt''
          (ascii ''ca'') (ascii ''Z'')
        = (Inl ResourceExhausted, example_manager\<lparr>activeOperations := 1\<rparr>, example_os)
   \<and> os_nodes blocked_backup_os ''/ws/notes.txt'' = Some (File ''abcabd'')
   \<and> fst (createBackup example_manager blocked_backup_os ''/ws/notes.txt'') = Inl EEXIST
   \<and> fst (partialWriteFile example_manager blocked_backup_os ''notes.txt'' (ascii ''ca'')
             (ascii ''Z''))
        = Inl (Failed ''partial write'' (IOError EEXIST))
   \<and> os_nodes (snd (snd (partialWriteFile example_manager blocked_backup_os ''notes.txt''
                             (ascii ''ca'') (ascii ''Z'')))) ''/ws/notes.txt''
        = Some (File ''abcabd'')"
proof -
  have a: "activeOperations example_manager
             < int (maxConcurrentOperations (config example_manager))"
    by (simp add: example_defs new_SecureFileManager_def defaultConfig_def)
  have full: "int (maxConcurrentOperations (config (example_manager\<lparr>activeOperations := 1\<rparr>)))
                \<le> activeOperations (example_manager\<lparr>activeOperations := 1\<rparr>)"
    by (simp add: example_defs new_SecureFileManager_def defaultConfig_def)
  have mx: "maxFileSize (config example_manager) = 8"
    by (simp add: example_defs new_SecureFileManager_def defaultConfig_def)
  have v: "validatePath (os_cwd example_os) example_manager ''notes.txt'' True
             = Inr ''/ws/notes.txt''"
    by (simp add: example_defs validate_defs path_defs)
  then have v1: "validatePath (os_cwd example_os) (example_manager\<lparr>activeOperations := 1\<rparr>)
                   ''notes.txt'' True = Inr ''/ws/notes.txt''"
    by simp
  have t: "os_nodes example_os ''/ws/notes.txt'' = Some (File ''abcabd'')"
    by (simp add: example_defs)
  have c': "toString_utf8 ''abcabd'' = ascii ''abcabd''" by (simp add: toString_utf8_ascii)
  then have c: "ascii ''abcabd'' = toString_utf8 ''abcabd''" by simp
  have blocked: "os_cwd blocked_backup_os = os_cwd example_os
        \<and> os_nodes blocked_backup_os ''/ws/notes.txt'' = Some (File ''abcabd'')
        \<and> fst (createBackup example_manager blocked_backup_os ''/ws/notes.txt'') = Inl EEXIST"
    by (simp add: writeFile_def writeFile_try_def createBackup_def acquire_def release_def
        example_defs blocked_backup_os_def validate_defs path_defs fs_defs byteLength_def)
  then have vb: "validatePath (os_cwd blocked_backup_os) example_manager ''notes.txt'' True
             = Inr ''/ws/notes.txt''"
    and tb: "os_nodes blocked_backup_os ''/ws/notes.txt'' = Some (File ''abcabd'')"
    and cbb: "fst (createBackup example_manager blocked_backup_os ''/ws/notes.txt'') = Inl EEXIST"
    using v by simp_all
  have o1: "occurrences (ascii ''ca'') (ascii ''abcabd'') = 1"
    by (simp add: occurrences_count_from ascii_def)
  have o0: "occurrences (ascii ''zz'') (ascii ''abcabd'') = 0"
    by (simp add: occurrences_count_from ascii_def)
  have o2: "occurrences (ascii ''ab'') (ascii ''abcabd'') = 2"
    by (simp add: occurrences_count_from ascii_def)
  have ne: "ascii ''ca'' \<noteq> []" by (simp add: ascii_def)
  have d: "ascii ''abcabd'' = ascii ''ab'' @ ascii ''ca'' @ ascii ''bd''"
    by (simp add: ascii_def)
  have wZ: "Buffer_from_utf8 (ascii ''ab'' @ ascii ''Z'' @ ascii ''bd'') = ''abZbd''"
    using Buffer_from_utf8_ascii[of "''abZbd''"] by (simp add: ascii_def)
  then have lZ: "Buffer_byteLength (ascii ''ab'' @ ascii ''Z'' @ ascii ''bd'') = 5"
    by (simp add: Buffer_byteLength_def)
  have "Buffer_from_utf8 (ascii ''ab'' @ ascii ''123456'' @ ascii ''bd'') = ''ab123456bd''"
    using Buffer_from_utf8_ascii[of "''ab123456bd''"] by (simp add: ascii_def)
  then have l6: "Buffer_byteLength (ascii ''ab'' @ ascii ''123456'' @ ascii ''bd'') = 10"
    by (simp add: Buffer_byteLength_def)
  have cb: "fst (createBackup example_manager example_os ''/ws/notes.txt'') = Inr ()"
    by (simp add: createBackup_def example_defs new_SecureFileManager_def defaultConfig_def
        path_defs fs_defs)
  have clk: "CHR ''/'' \<notin> set (os_clock example_os)" by (simp add: example_defs)
  from partialWrite_by_occurrences[where oldContent = "ascii ''ca''" and newContent = "ascii ''Z''"
         and pre = "ascii ''ab''" and post = "ascii ''bd''", OF v t c] a o1 ne d lZ mx cb clk wZ
  have r1: "\<exists>w'. partialWriteFile example_manager example_os ''notes.txt'' (ascii ''ca'')
               (ascii ''Z'') = (Inr (), example_manager, w')
         \<and> os_nodes w' ''/ws/notes.txt'' = Some (File ''abZbd'')
         \<and> os_nodes w' (backup_path example_manager example_os ''/ws/notes.txt'')
             = Some (File ''abcabd'')"
    by simp
  from partialWrite_by_occurrences[where oldContent = "ascii ''zz''" and newContent = "ascii ''Z''",
         OF v t c] a o0
  have r0: "partialWriteFile example_manager example_os ''notes.txt'' (ascii ''zz'') (ascii ''Z'')
        = (Inl (Failed ''partial write'' NoMatch), example_manager, example_os)"
    by simp
  from partialWrite_by_occurrences[where oldContent = "ascii ''ab''" and newContent = "ascii ''Z''",
         OF v t c] a o2
  have r2: "partialWriteFile example_manager example_os ''notes.txt'' (ascii ''ab'') (ascii ''Z'')
        = (Inl (Failed ''partial write'' AmbiguousMatch), example_manager, example_os)"
    by simp
  from partialWrite_by_occurrences[where oldContent = "ascii ''ca''"
         and newContent = "ascii ''123456''" and pre = "ascii ''ab''" and post = "ascii ''bd''",
         OF v t c] a o1 ne d l6 mx
  have r6: "partialWriteFile example_manager example_os ''notes.txt'' (ascii ''ca'')
          (ascii ''123456'')
        = (Inl (Failed ''partial write'' SizeExceeded), example_manager, example_os)"
    by simp
  from partialWrite_by_occurrences[where oldContent = "ascii ''ca''" and newContent = "ascii ''Z''",
         OF v1 t c] full
  have rf: "partialWriteFile (example_manager\<lparr>activeOperations := 1\<rparr>) example_os ''notes.txt''
          (ascii ''ca'') (ascii ''Z'')
        = (Inl ResourceExhausted, example_manager\<lparr>activeOperations := 1\<rparr>, example_os)"
    by simp
  from partialWrite_by_occurrences[where oldContent = "ascii ''ca''" and newContent = "ascii ''Z''"
         and pre = "ascii ''ab''" and post = "ascii ''bd''" and e = EEXIST, OF vb tb c]
       a o1 ne d lZ mx cbb
  have rb: "fst (partialWriteFile example_manager blocked_backup_os ''notes.txt'' (ascii ''ca'')
             (ascii ''Z''))
        = Inl (Failed ''partial write'' (IOError EEXIST))
     \<and> os_nodes (snd (snd (partialWriteFile example_manager blocked_backup_os ''notes.txt''
                             (ascii ''ca'') (ascii ''Z'')))) ''/ws/notes.txt''
        = Some (File ''abcabd'')"
    by simp
  show ?thesis
    by (intro conjI v t c' a o1 d lZ cb r1 o0 r0 o2 r2 l6 r6 rf tb cbb rb[THEN conjunct1]
        rb[THEN conjunct2])
qed

text \<open>
  The claim as first stated promises success whenever the fragment occurs exactly once.
  The size check of the replaced content comes first: here the fragment \<open>ca\<close> occurs
  once in \<open>abcabd\<close>, the gate is open, the path valid, and the partial write fails with
  \<open>SizeExceeded\<close> because the result would have 9 bytes where 8 are allowed.
\<close>

theorem partialWrite_unique_but_oversized_counterexample:
  "activeOperations example_manager < int (maxConcurrentOperations (config example_manager))
   \<and> validatePath (os_cwd example_os) example_manager ''notes.txt'' True = Inr ''/ws/notes.txt''
   \<and> os_nodes example_os ''/ws/notes.txt'' = Some (File ''abcabd'')
   \<and> toString_utf8 ''abcabd'' = ascii ''abcabd''
   \<and> occurrences (ascii ''ca'') (ascii ''abcabd'') = 1
   \<and> fst (partialWriteFile example_manager example_os ''notes.txt'' (ascii ''ca'')
             (ascii ''XXXXX''))
        = Inl (Failed ''partial write'' SizeExceeded)"
  by (simp add: occurrences_count_from partialWriteFile_def partialWriteFile_try_def acquire_def
      release_def indexOf_def substring_def substring_from_def example_defs validate_defs
      path_defs fs_defs toString_utf8_ascii ascii_def utf8_examples_defs)

text \<open>
  The empty fragment in an empty file: it occurs once, at position 0, and the second
  search, whose start position is clamped to the length of the text, finds that same
  occurrence again; the partial write fails with \<open>AmbiguousMatch\<close>.
\<close>

lemma partialWrite_empty_fragment_in_empty_file:
  "occurrences [] (toString_utf8 []) = 1
   \<and> fst (partialWriteFile example_manager (put_node example_os ''/ws/empty.txt'' (File []))
            ''empty.txt'' [] (ascii ''x''))
        = Inl (Failed ''partial write'' AmbiguousMatch)"
  by (simp add: occurrences_count_from partialWriteFile_def partialWriteFile_try_def acquire_def
      release_def indexOf_def example_defs validate_defs path_defs fs_defs toString_utf8_ascii
      ascii_def)

text \<open>
  A file that is not the encoding of a text: the file holds the bytes \<open>ff 61 62\<close>, which
  are read as \<open>U+FFFD a b\<close>. Replacing \<open>a\<close> by \<open>Z\<close> writes the whole string back, so
  the file then holds \<open>ef bf bd 5a 62\<close>: the byte outside the fragment has changed as
  well. The backup holds the three bytes as they were.
\<close>

lemma partialWrite_of_invalid_bytes:
  "os_nodes example_binary_os ''/ws/c.txt'' = Some (File [CHR 0xFF, CHR ''a'', CHR ''b''])
   \<and> fst (partialWriteFile example_manager example_binary_os ''c.txt'' (ascii ''a'') (ascii ''Z''))
        = Inr ()
   \<and> os_nodes (snd (snd (partialWriteFile example_manager example_binary_os ''c.txt''
                             (ascii ''a'') (ascii ''Z'')))) ''/ws/c.txt''
        = Some (File [CHR 0xEF, CHR 0xBF, CHR 0xBD, CHR ''Z'', CHR ''b''])
   \<and> os_nodes (snd (snd (partialWriteFile example_manager example_binary_os ''c.txt''
                             (ascii ''a'') (ascii ''Z''))))
        (backup_path example_manager example_binary_os ''/ws/c.txt'')
        = Some (File [CHR 0xFF, CHR ''a'', CHR ''b''])"
  by (simp add: partialWriteFile_def partialWriteFile_try_def acquire_def release_def
      indexOf_def substring_def substring_from_def createBackup_def backup_path_def
      example_binary_os_def example_defs validate_defs path_defs fs_defs ascii_def
      utf8_examples_defs)

text \<open>
  A fragment that is half of a character: the file holds \<open>U+1F600\<close>, which is read as
  the two code units \<open>D83D DE00\<close>, and the fragment \<open>D83D\<close> occurs once in them.
  Replacing it by \<open>Z\<close> leaves the low surrogate without its partner, and the file then
  holds \<open>5a ef bf bd\<close>.
\<close>

lemma partialWrite_of_half_a_character:
  "toString_utf8 [CHR 0xF0, CHR 0x9F, CHR 0x98, CHR 0x80] = [0xD83D, 0xDE00]
   \<and> occurrences [0xD83D] [0xD83D, 0xDE00 :: nat] = 1
   \<and> fst (partialWriteFile example_manager example_emoji_os ''d.txt'' [0xD83D] (ascii ''Z''))
        = Inr ()
   \<and> os_nodes (snd (snd (partialWriteFile example_manager example_emoji_os ''d.txt''
                             [0xD83D] (ascii ''Z'')))) ''/ws/d.txt''
        = Some (File [CHR ''Z'', CHR 0xEF, CHR 0xBF, CHR 0xBD])"
  by (simp add: occurrences_count_from partialWriteFile_def partialWriteFile_try_def acquire_def
      release_def indexOf_def substring_def substring_from_def createBackup_def
      example_emoji_os_def example_defs validate_defs path_defs fs_defs ascii_def
      utf8_examples_defs)

subsection \<open>Search\<close>

lemma escaped_class_complete: "set escaped_class = set syntax_characters"
  by (auto simp: escaped_class_def syntax_characters_def ascii_def)

lemma backslash_syntax: "backslash \<in> set syntax_characters"
  by (simp add: syntax_characters_def)

lemma regex_atoms_plain:
  "c \<notin> set syntax_characters \<Longrightarrow> regex_atoms (c # xs) = Literal c # regex_atoms xs"
  using backslash_syntax by (cases xs) auto

lemma regex_atoms_escaped:
  "c \<in> set syntax_characters \<Longrightarrow> regex_atoms (backslash # c # xs) = Literal c # regex_atoms xs"
  by simp

lemma regex_atoms_escapeRegExp: "regex_atoms (escapeRegExp pattern) = map Literal pattern"
proof (induction pattern)
  case Nil
  then show ?case by (simp add: escapeRegExp_def)
next
  case (Cons c cs)
  have "escapeRegExp (c # cs)
          = (if c \<in> set syntax_characters then [backslash, c] else [c]) @ escapeRegExp cs"
    by (simp add: escapeRegExp_def escaped_class_complete)
  with Cons show ?case
    by (simp add: regex_atoms_plain regex_atoms_escaped del: regex_atoms.simps)
qed

lemma literal_chars_map: "literal_chars (map Literal cs) = Some cs"
  by (induction cs) auto

lemma new_RegExp_escaped:
  "new_RegExp (escapeRegExp pattern) ignoreCase = Some (RegExp pattern ignoreCase)"
  by (simp add: new_RegExp_def regex_atoms_escapeRegExp literal_chars_map)

lemma lineNumber_make_match [simp]: "lineNumber (make_match lines ctx i) = i + 1"
  by (simp add: make_match_def)

lemma lineText_make_match [simp]: "lineText (make_match lines ctx i) = lines ! i"
  by (simp add: make_match_def)

lemma Canonicalize_False: "Canonicalize w False ch = ch"
  by (simp add: Canonicalize_def)

lemma Canonicalize_ascii:
  "ch < 0x80 \<Longrightarrow>
     Canonicalize w True ch = (if 0x61 \<le> ch \<and> ch \<le> 0x7A then ch - 0x20 else ch)"
  by (auto simp: Canonicalize_def toUppercase_def utf16_encode_def)

lemma Canonicalize_above: "0x80 \<le> ch \<Longrightarrow> 0x80 \<le> Canonicalize w True ch"
  by (simp add: Canonicalize_def Let_def)

lemma Canonicalize_runtime:
  assumes "0x80 \<le> ch"
  shows "Canonicalize w True ch
           = (case concat (map utf16_encode (os_toUppercase w ch)) of
                [cu] \<Rightarrow> if cu < 0x80 then ch else cu
              | _ \<Rightarrow> ch)"
proof -
  define uStr where "uStr = concat (map utf16_encode (os_toUppercase w ch))"
  have "Canonicalize w True ch
          = (if length uStr \<noteq> 1 then ch else if hd uStr < 0x80 then ch else hd uStr)"
    using assms unfolding uStr_def by (simp add: Canonicalize_def toUppercase_def Let_def)
  also have "\<dots> = (case uStr of [cu] \<Rightarrow> if cu < 0x80 then ch else cu | _ \<Rightarrow> ch)"
  proof (cases uStr)
    case Nil
    then show ?thesis by simp
  next
    case (Cons cu rest)
    then show ?thesis by (cases rest) simp_all
  qed
  finally show ?thesis unfolding uStr_def .
qed

text \<open>
  C7. Whatever the pattern, the text handed to the regular-expression constructor after
  escaping denotes the characters of the pattern themselves and nothing of the pattern
  language. For a file that can be read, with its bytes read as a string and the string
  cut into lines, the search returns a list of matches in which a line is reported, with
  its 1-based number and its text, exactly when the code units of the pattern stand in a
  row in the line, compared after \<open>Canonicalize\<close>; every reported number is the number
  of a line of the file. Without \<open>ignoreCase\<close> a code unit is compared as it is. With
  it, an ASCII code unit is compared as its capital if it is a small letter and as it is
  otherwise, and every other code unit as a code unit outside ASCII: the upper-case
  form that the runtime has for it if that is one code unit outside ASCII, the code unit
  itself if not.
\<close>

theorem search_is_literal:
  "new_RegExp (escapeRegExp pattern) ignoreCase = Some (RegExp pattern ignoreCase)
   \<and> (os_nodes w filePath = Some (File bytes) \<longrightarrow>
        (\<exists>matches. searchInFile w filePath pattern ignoreCase contextLines = Some matches
           \<and> (\<forall>i < length (split_on line_feed (toString_utf8 bytes)).
                 (\<exists>mt \<in> set matches. lineNumber mt = i + 1
                      \<and> lineText mt = split_on line_feed (toString_utf8 bytes) ! i)
                 \<longleftrightarrow> sublist (map (Canonicalize w ignoreCase) pattern)
                       (map (Canonicalize w ignoreCase)
                          (split_on line_feed (toString_utf8 bytes) ! i)))
           \<and> (\<forall>mt \<in> set matches. 1 \<le> lineNumber mt
                 \<and> lineNumber mt \<le> length (split_on line_feed (toString_utf8 bytes)))))
   \<and> Canonicalize w False ch = ch
   \<and> (ch < 0x80 \<longrightarrow>
        Canonicalize w True ch = (if 0x61 \<le> ch \<and> ch \<le> 0x7A then ch - 0x20 else ch))
   \<and> (0x80 \<le> ch \<longrightarrow>
        0x80 \<le> Canonicalize w True ch
        \<and> Canonicalize w True ch
            = (case concat (map utf16_encode (os_toUppercase w ch)) of
                 [cu] \<Rightarrow> if cu < 0x80 then ch else cu
               | _ \<Rightarrow> ch))"
proof (intro conjI impI)
  show "new_RegExp (escapeRegExp pattern) ignoreCase = Some (RegExp pattern ignoreCase)"
    by (rule new_RegExp_escaped)
next
  assume target: "os_nodes w filePath = Some (File bytes)"
  let ?lines = "split_on line_feed (toString_utf8 bytes)"
  let ?hit = "\<lambda>i. sublist (map (Canonicalize w ignoreCase) pattern)
                     (map (Canonicalize w ignoreCase) (?lines ! i))"
  let ?ms = "map (make_match ?lines contextLines) (filter ?hit [0..<length ?lines])"
  have s: "searchInFile w filePath pattern ignoreCase contextLines = Some ?ms"
    by (simp add: searchInFile_def fs_readFile_utf8_File[OF target] new_RegExp_escaped Let_def)
  have "(\<exists>mt \<in> set ?ms. lineNumber mt = i + 1 \<and> lineText mt = ?lines ! i) \<longleftrightarrow> ?hit i"
    if "i < length ?lines" for i
    using that by auto
  moreover have "\<forall>mt \<in> set ?ms. 1 \<le> lineNumber mt \<and> lineNumber mt \<le> length ?lines"
    by auto
  ultimately show "\<exists>matches. searchInFile w filePath pattern ignoreCase contextLines = Some matches
           \<and> (\<forall>i < length ?lines.
                 (\<exists>mt \<in> set matches. lineNumber mt = i + 1 \<and> lineText mt = ?lines ! i)
                 \<longleftrightarrow> ?hit i)
           \<and> (\<forall>mt \<in> set matches. 1 \<le> lineNumber mt \<and> lineNumber mt \<le> length ?lines)"
    using s by blast
next
  show "Canonicalize w False ch = ch" by (rule Canonicalize_False)
next
  assume "ch < 0x80"
  then show "Canonicalize w True ch = (if 0x61 \<le> ch \<and> ch \<le> 0x7A then ch - 0x20 else ch)"
    by (rule Canonicalize_ascii)
next
  assume "0x80 \<le> ch"
  then show "0x80 \<le> Canonicalize w True ch" by (rule Canonicalize_above)
next
  assume "0x80 \<le> ch"
  then show "Canonicalize w True ch
            = (case concat (map utf16_encode (os_toUppercase w ch)) of
                 [cu] \<Rightarrow> if cu < 0x80 then ch else cu
               | _ \<Rightarrow> ch)"
    by (rule Canonicalize_runtime)
qed

theorem search_is_literal_witness:
  "os_nodes example_search_os ''/ws/a.txt''
     = Some (File (''x = a.b'' @ [newline] @ ''x = aXb'' @ [newline] @ ''Y = A.B''))
   \<and> split_on line_feed
         (toString_utf8 (''x = a.b'' @ [newline] @ ''x = aXb'' @ [newline] @ ''Y = A.B''))
     = [ascii ''x = a.b'', ascii ''x = aXb'', ascii ''Y = A.B'']
   \<and> searchInFile example_search_os ''/ws/a.txt'' (ascii ''a.b'') False 0
     = Some [\<lparr> lineNumber = 1, lineText = ascii ''x = a.b'', contextLines_of = None \<rparr>]
   \<and> searchInFile example_search_os ''/ws/a.txt'' (ascii ''a.b'') True 0
     = Some [\<lparr> lineNumber = 1, lineText = ascii ''x = a.b'', contextLines_of = None \<rparr>,
             \<lparr> lineNumber = 3, lineText = ascii ''Y = A.B'', contextLines_of = None \<rparr>]
   \<and> os_nodes example_accent_os ''/ws/b.txt''
     = Some (File [CHR 0xC3, CHR 0x89, newline, CHR 0xC3, CHR 0xA9])
   \<and> split_on line_feed (toString_utf8 [CHR 0xC3, CHR 0x89, newline, CHR 0xC3, CHR 0xA9])
     = [[0xC9], [0xE9]]
   \<and> Canonicalize example_accent_os True 0xE9 = 0xC9
   \<and> Canonicalize example_accent_os True 0xC9 = 0xC9
   \<and> searchInFile example_accent_os ''/ws/b.txt'' [0xE9] True 0
     = Some [\<lparr> lineNumber = 1, lineText = [0xC9], contextLines_of = None \<rparr>,
             \<lparr> lineNumber = 2, lineText = [0xE9], contextLines_of = None \<rparr>]
   \<and> searchInFile example_accent_os ''/ws/b.txt'' [0xE9] False 0
     = Some [\<lparr> lineNumber = 2, lineText = [0xE9], contextLines_of = None \<rparr>]"
proof -
  have a: "os_nodes example_search_os ''/ws/a.txt''
     = Some (File (''x = a.b'' @ [newline] @ ''x = aXb'' @ [newline] @ ''Y = A.B''))"
    by (simp add: example_search_os_def)
  have b: "os_nodes example_accent_os ''/ws/b.txt''
     = Some (File [CHR 0xC3, CHR 0x89, newline, CHR 0xC3, CHR 0xA9])"
    by (simp add: example_accent_os_def)
  have la: "split_on line_feed
         (toString_utf8 (''x = a.b'' @ [newline] @ ''x = aXb'' @ [newline] @ ''Y = A.B''))
     = [ascii ''x = a.b'', ascii ''x = aXb'', ascii ''Y = A.B'']"
    by (simp add: toString_utf8_ascii newline_def line_feed_def ascii_def)
  note la' = la[simplified]
  have lb: "split_on line_feed (toString_utf8 [CHR 0xC3, CHR 0x89, newline, CHR 0xC3, CHR 0xA9])
     = [[0xC9], [0xE9]]"
    by (simp add: toString_utf8_def utf8_decode_def utf16_encode_def newline_def line_feed_def)
  note lb' = lb[simplified]
  have k: "Canonicalize example_accent_os True 0xE9 = 0xC9"
    "Canonicalize example_accent_os True 0xC9 = 0xC9"
    by (simp_all add: Canonicalize_def toUppercase_def utf16_encode_def latin1_toUppercase_def
        example_accent_os_def example_defs)
  have r1: "searchInFile example_search_os ''/ws/a.txt'' (ascii ''a.b'') False 0
     = Some [\<lparr> lineNumber = 1, lineText = ascii ''x = a.b'', contextLines_of = None \<rparr>]"
    using search_is_literal[where pattern = "ascii ''a.b''" and ignoreCase = False
          and w = example_search_os and filePath = "''/ws/a.txt''"
          and bytes = "''x = a.b'' @ [newline] @ ''x = aXb'' @ [newline] @ ''Y = A.B''"
          and contextLines = 0 and ch = 0]
    by (simp add: searchInFile_def new_RegExp_escaped fs_readFile_utf8_File[OF a] la'
        make_match_def Canonicalize_False sublist_code ascii_def Let_def)
  have r2: "searchInFile example_search_os ''/ws/a.txt'' (ascii ''a.b'') True 0
     = Some [\<lparr> lineNumber = 1, lineText = ascii ''x = a.b'', contextLines_of = None \<rparr>,
             \<lparr> lineNumber = 3, lineText = ascii ''Y = A.B'', contextLines_of = None \<rparr>]"
    using search_is_literal[where pattern = "ascii ''a.b''" and ignoreCase = True
          and w = example_search_os and filePath = "''/ws/a.txt''"
          and bytes = "''x = a.b'' @ [newline] @ ''x = aXb'' @ [newline] @ ''Y = A.B''"
          and contextLines = 0 and ch = 97]
    by (simp add: searchInFile_def new_RegExp_escaped fs_readFile_utf8_File[OF a] la'
        make_match_def Canonicalize_ascii sublist_code ascii_def Let_def)
  have r3: "searchInFile example_accent_os ''/ws/b.txt'' [0xE9] True 0
     = Some [\<lparr> lineNumber = 1, lineText = [0xC9], contextLines_of = None \<rparr>,
             \<lparr> lineNumber = 2, lineText = [0xE9], contextLines_of = None \<rparr>]"
    using search_is_literal[where pattern = "[233]" and ignoreCase = True
          and w = example_accent_os and filePath = "''/ws/b.txt''"
          and bytes = "[CHR 0xC3, CHR 0x89, newline, CHR 0xC3, CHR 0xA9]"
          and contextLines = 0 and ch = 233]
    by (simp add: searchInFile_def new_RegExp_escaped fs_readFile_utf8_File[OF b] lb' k
        make_match_def sublist_code Let_def)
  have r4: "searchInFile example_accent_os ''/ws/b.txt'' [0xE9] False 0
     = Some [\<lparr> lineNumber = 2, lineText = [0xE9], contextLines_of = None \<rparr>]"
    using search_is_literal[where pattern = "[233]" and ignoreCase = False
          and w = example_accent_os and filePath = "''/ws/b.txt''"
          and bytes = "[CHR 0xC3, CHR 0x89, newline, CHR 0xC3, CHR 0xA9]"
          and contextLines = 0 and ch = 233]
    by (simp add: searchInFile_def new_RegExp_escaped fs_readFile_utf8_File[OF b] lb'
        make_match_def Canonicalize_False sublist_code Let_def)
  show ?thesis by (intro conjI a la r1 r2 b lb k r3 r4)
qed

lemma searchInFile_not_None: "searchInFile w filePath pattern ignoreCase contextLines \<noteq> None"
  by (simp add: searchInFile_def new_RegExp_escaped Let_def split: sum.splits)

lemma search_entry_Some:
  "\<exists>st'. search_entry m w pattern ignoreCase contextLines recursive currentDir st entry = Some st'"
  by (cases st) (auto simp: search_entry_def Let_def searchInFile_not_None
      split: sum.splits option.splits)

lemma search_entries_Some:
  "\<exists>st'. search_entries m w pattern ignoreCase contextLines recursive currentDir st entries = Some st'"
proof (induction entries arbitrary: st)
  case Nil
  then show ?case by simp
next
  case (Cons e es)
  from search_entry_Some[of m w pattern ignoreCase contextLines recursive currentDir st e]
  obtain st1 where "search_entry m w pattern ignoreCase contextLines recursive currentDir st e = Some st1"
    by blast
  with Cons[of st1] show ?case by simp
qed

lemma search_loop_ok:
  "walk_ok s \<Longrightarrow>
     \<exists>s'. search_loop realpath readdir m w pattern ignoreCase contextLines recursive s = Some s'
          \<and> walk_ok s' \<and> processedCount s' \<le> max (processedCount s) maxDirectories"
proof (induction realpath readdir m w pattern ignoreCase contextLines recursive s
       rule: search_loop.induct)
  case (1 realpath readdir m w pattern ignoreCase contextLines recursive s)
  show ?case
  proof (cases "directoriesToProcess s \<noteq> [] \<and> processedCount s < maxDirectories")
    case False
    with "1.prems" show ?thesis by (subst search_loop.simps) auto
  next
    case go: True
    let ?cur = "hd (directoriesToProcess s)"
    let ?s1 = "s\<lparr> directoriesToProcess := tl (directoriesToProcess s),
                    processedCount := processedCount s + 1 \<rparr>"
    have ok1: "walk_ok ?s1" using "1.prems" by (simp add: walk_ok_def)
    have bound1: "max (processedCount ?s1) maxDirectories = max (processedCount s) maxDirectories"
      using go by simp
    show ?thesis
    proof (cases "realpath ?cur")
      case None
      from "1.IH"(1)[OF go refl refl None ok1] bound1 go None show ?thesis
        by (subst search_loop.simps) (simp add: Let_def)
    next
      case (Some realPath)
      show ?thesis
      proof (cases "realPath \<in> processedPaths ?s1")
        case True
        from "1.IH"(2)[OF go refl refl Some True ok1] bound1 go Some True show ?thesis
          by (subst search_loop.simps) (simp add: Let_def)
      next
        case fresh: False
        let ?s2 = "?s1\<lparr> processedPaths := insert realPath (processedPaths ?s1),
                         readdirCalls := readdirCalls ?s1 @ [realPath] \<rparr>"
        have ok2: "walk_ok ?s2" using "1.prems" fresh by (auto simp: walk_ok_def)
        show ?thesis
        proof (cases "readdir ?cur")
          case None
          from "1.IH"(3)[OF go refl refl Some fresh refl None ok2] bound1 go Some fresh None
          show ?thesis by (subst search_loop.simps) (simp add: Let_def)
        next
          case entries: (Some entries)
          from search_entries_Some[of m w pattern ignoreCase contextLines recursive ?cur
                 "(directoriesToProcess ?s2, results ?s2)" entries]
          obtain queue found where se: "search_entries m w pattern ignoreCase contextLines
              recursive ?cur (directoriesToProcess ?s2, results ?s2) entries = Some (queue, found)"
            by (cases "the (search_entries m w pattern ignoreCase contextLines
              recursive ?cur (directoriesToProcess ?s2, results ?s2) entries)") auto
          let ?s3 = "?s2\<lparr> directoriesToProcess := queue, results := found \<rparr>"
          have ok3: "walk_ok ?s3" using ok2 by (simp add: walk_ok_def)
          from "1.IH"(4)[OF go refl refl Some fresh refl entries se refl ok3] bound1 go Some fresh
            entries se
          show ?thesis by (subst search_loop.simps) (simp add: Let_def)
        qed
      qed
    qed
  qed
qed

text \<open>
  C6. For every file system, every start directory and every pattern, the walk ends and
  returns; the canonical paths of the directories whose entries it asked for are
  pairwise different, each of them is in the set of processed paths, and the loop took
  at most \<open>maxDirectories\<close> directories from its queue. So no canonical directory is
  read twice, however the links of the tree point.
\<close>

theorem walk_never_repeats:
  "\<exists>s'. searchInDirectorySafe realpath readdir m w rootPath pattern ignoreCase contextLines recursive
          = Some s'
        \<and> distinct (readdirCalls s')
        \<and> set (readdirCalls s') \<subseteq> processedPaths s'
        \<and> length (readdirCalls s') \<le> processedCount s'
        \<and> processedCount s' \<le> maxDirectories"
proof -
  let ?s0 = "\<lparr> directoriesToProcess = [rootPath], processedPaths = {}, processedCount = 0,
         results = [], readdirCalls = [] \<rparr>"
  have "walk_ok ?s0" by (simp add: walk_ok_def)
  from search_loop_ok[OF this, of realpath readdir m w pattern ignoreCase contextLines recursive]
  show ?thesis by (auto simp: searchInDirectorySafe_def walk_ok_def)
qed

theorem walk_never_repeats_witness:
  "map_option readdirCalls
     (searchInDirectorySafe cyclic_realpath cyclic_readdir example_manager example_os
        ''/ws'' (ascii ''abc'') False 0 True) = Some [''/ws'', ''/ws/sub'']
   \<and> map_option directoriesToProcess
     (searchInDirectorySafe cyclic_realpath cyclic_readdir example_manager example_os
        ''/ws'' (ascii ''abc'') False 0 True) = Some []
   \<and> map_option processedCount
     (searchInDirectorySafe cyclic_realpath cyclic_readdir example_manager example_os
        ''/ws'' (ascii ''abc'') False 0 True) = Some 3"
  using walk_never_repeats[of cyclic_realpath cyclic_readdir example_manager example_os
          "''/ws''" "ascii ''abc''" False 0 True]
  by (simp add: searchInDirectorySafe_def search_loop.simps search_entry_def searchInFile_def
      new_RegExp_escaped cyclic_realpath_def cyclic_readdir_def maxDirectories_def
      example_defs validate_defs path_defs fs_defs line_feed_def make_match_def
      Canonicalize_False toString_utf8_ascii ascii_def byteLength_def Let_def)

end
